theory Spec2Isabelle
  imports Complex_Main "HOL-Library.Multiset"
begin

section \<open>Tenant matching engine: data model\<close>

text \<open>
  The engine of \<^verbatim>\<open>matching_engine.py\<close> is embedded function by function.
  Python floats are read as exact real numbers (no rounding of intermediate results, no
  NaN and no infinities); the conversion \<^verbatim>\<open>float(a[f])\<close> of an integer rounds to the
  nearest double and raises \<open>OverflowError\<close> beyond the largest one, and the two places
  where the source itself rounds, \<^verbatim>\<open>round(x, 2)\<close> and the format \<^verbatim>\<open>:.2f\<close>, are
  rounding to the nearest hundredth with ties to even. Sums and products that are equal
  as real numbers can differ in the last bit as doubles, so the order the two sorts give
  to entries with equal keys is not a property of the program; the statements below leave
  it open. The module constants of the CONFIG section are gathered in a record that every
  function receives, so that the guards on degenerate constants can be exercised;
  \<open>module_globals\<close> holds the values the file assigns.
\<close>

datatype py_error = KeyError string | ZeroDivisionError | IndexError | OverflowError

record globals =
  SCALE_MIN :: int
  SCALE_MAX :: int
  FEATURES :: "string list"
  WEIGHTS :: "string \<rightharpoonup> real"
  SCORING_MODE :: "string \<rightharpoonup> string"

definition module_globals :: globals where
  "module_globals = \<lparr>
     SCALE_MIN = 1,
     SCALE_MAX = 5,
     FEATURES = [''cleanliness_level'', ''noise_tolerance'', ''sleep_schedule'',
       ''routine_structure'', ''WFH_frequency'', ''sociability_level'', ''guest_tolerance'',
       ''privacy_need'', ''conflict_style'', ''shared_spaces_usage''],
     WEIGHTS = map_of [(''cleanliness_level'', 13 / 10), (''noise_tolerance'', 13 / 10),
       (''sleep_schedule'', 12 / 10), (''routine_structure'', 1), (''WFH_frequency'', 8 / 10),
       (''sociability_level'', 1), (''guest_tolerance'', 1), (''privacy_need'', 11 / 10),
       (''conflict_style'', 9 / 10), (''shared_spaces_usage'', 9 / 10)],
     SCORING_MODE = map_of [(''cleanliness_level'', ''similarity''),
       (''noise_tolerance'', ''similarity''), (''sleep_schedule'', ''similarity''),
       (''routine_structure'', ''similarity''), (''WFH_frequency'', ''similarity''),
       (''sociability_level'', ''complementarity''), (''guest_tolerance'', ''similarity''),
       (''privacy_need'', ''similarity''), (''conflict_style'', ''similarity''),
       (''shared_spaces_usage'', ''complementarity'')] \<rparr>"

text \<open>
  A row of the profile table, as \<^verbatim>\<open>profiles.to_dict(orient="records")\<close> yields it:
  the two structural columns and the attribute columns, looked up by name. An attribute
  column holds integers (the generator draws them with \<^verbatim>\<open>randint\<close>); a column the
  table lacks is \<open>None\<close> and reading it raises \<open>KeyError\<close>.
\<close>

record profile =
  user_id :: int
  tenant_label :: string
  attrs :: "string \<rightharpoonup> int"

section \<open>Helpers and scoring\<close>

definition clamp01 :: "real \<Rightarrow> real" where
  "clamp01 x = max 0 (min 1 x)"

definition py_div :: "real \<Rightarrow> real \<Rightarrow> py_error + real" where
  "py_div x y = (if y = 0 then Inl ZeroDivisionError else Inr (x / y))"

definition similarity_score :: "globals \<Rightarrow> real \<Rightarrow> real \<Rightarrow> py_error + real" where
  "similarity_score g a b =
     (let max_dist = real_of_int (SCALE_MAX g - SCALE_MIN g) in
      if max_dist \<le> 0 then Inr 1
      else
        let dist = \<bar>a - b\<bar> in
        case py_div dist max_dist of
          Inl e \<Rightarrow> Inl e
        | Inr q \<Rightarrow> Inr (clamp01 (1 - q)))"

definition complementarity_score :: "globals \<Rightarrow> real \<Rightarrow> real \<Rightarrow> py_error + real" where
  "complementarity_score g a b =
     (let target_sum = real_of_int (SCALE_MIN g + SCALE_MAX g);
          max_dev = real_of_int (SCALE_MAX g - SCALE_MIN g) in
      if max_dev \<le> 0 then Inr 1
      else
        let s = a + b;
            dev = \<bar>s - target_sum\<bar> in
        case py_div dev max_dev of
          Inl e \<Rightarrow> Inl e
        | Inr q \<Rightarrow> Inr (clamp01 (1 - q)))"

definition feature_score :: "globals \<Rightarrow> string \<Rightarrow> real \<Rightarrow> real \<Rightarrow> py_error + (real \<times> string)" where
  "feature_score g feature a b =
     (let mode = (case SCORING_MODE g feature of Some m \<Rightarrow> m | None \<Rightarrow> ''similarity'') in
      if mode = ''complementarity'' then
        (case complementarity_score g a b of
           Inl e \<Rightarrow> Inl e
         | Inr sc \<Rightarrow> Inr (sc, ''complementarity''))
      else
        (case similarity_score g a b of
           Inl e \<Rightarrow> Inl e
         | Inr sc \<Rightarrow> Inr (sc, ''similarity'')))"

definition weight_of :: "globals \<Rightarrow> string \<Rightarrow> real" where
  "weight_of g f = (case WEIGHTS g f of Some w \<Rightarrow> w | None \<Rightarrow> 1)"

section \<open>Python built-ins used by the engine\<close>

text \<open>
  \<^verbatim>\<open>list.sort(key=k, reverse=True)\<close> is a stable sort into non-increasing key order:
  elements with equal keys keep their relative order.
\<close>

definition py_sort_desc :: "('a \<Rightarrow> real) \<Rightarrow> 'a list \<Rightarrow> 'a list" where
  "py_sort_desc k xs = sort_key (\<lambda>x. - k x) xs"

text \<open>The slice \<^verbatim>\<open>xs[:n]\<close>; a negative \<open>n\<close> counts from the end.\<close>

definition py_slice_to :: "'a list \<Rightarrow> int \<Rightarrow> 'a list" where
  "py_slice_to xs n =
     (if 0 \<le> n then take (nat n) xs else take (length xs - nat (- n)) xs)"

definition py_index :: "'a list \<Rightarrow> nat \<Rightarrow> py_error + 'a" where
  "py_index xs i = (if i < length xs then Inr (xs ! i) else Inl IndexError)"

fun py_join :: "string \<Rightarrow> string list \<Rightarrow> string" where
  "py_join sep [] = []"
| "py_join sep [x] = x"
| "py_join sep (x # y # ys) = x @ sep @ py_join sep (y # ys)"

text \<open>Letters are the ASCII ones; the attribute names of the file use no others.\<close>

definition ascii_upper :: "char \<Rightarrow> char" where
  "ascii_upper c =
     (case map_of (zip ''abcdefghijklmnopqrstuvwxyz'' ''ABCDEFGHIJKLMNOPQRSTUVWXYZ'') c of
        Some u \<Rightarrow> u | None \<Rightarrow> c)"

definition ascii_lower :: "char \<Rightarrow> char" where
  "ascii_lower c =
     (case map_of (zip ''ABCDEFGHIJKLMNOPQRSTUVWXYZ'' ''abcdefghijklmnopqrstuvwxyz'') c of
        Some l \<Rightarrow> l | None \<Rightarrow> c)"

definition py_capitalize :: "string \<Rightarrow> string" where
  "py_capitalize s = (case s of [] \<Rightarrow> [] | c # cs \<Rightarrow> ascii_upper c # map ascii_lower cs)"

definition py_replace_char :: "char \<Rightarrow> char \<Rightarrow> string \<Rightarrow> string" where
  "py_replace_char old new s = map (\<lambda>c. if c = old then new else c) s"

definition round_half_even :: "real \<Rightarrow> int" where
  "round_half_even x =
     (let f = \<lfloor>x\<rfloor>; d = x - of_int f in
      if d < 1 / 2 then f
      else if 1 / 2 < d then f + 1
      else if even f then f else f + 1)"

text \<open>\<^verbatim>\<open>round(x, 2)\<close>\<close>

definition py_round2 :: "real \<Rightarrow> real" where
  "py_round2 x = of_int (round_half_even (x * 100)) / 100"

text \<open>\<^verbatim>\<open>int.bit_length\<close> of a natural number\<close>

fun bit_length :: "nat \<Rightarrow> nat" where
  "bit_length n = (if n = 0 then 0 else Suc (bit_length (n div 2)))"

declare bit_length.simps [simp del]

text \<open>
  \<^verbatim>\<open>float(i)\<close> for an integer \<open>i\<close>: the nearest double, ties to even. An integer of at
  most 53 bits is its own double; a longer one keeps 53 significant bits. From
  \<open>2^1024 - 2^970\<close> on the nearest double would be \<open>2^1024\<close>, beyond the largest one,
  and Python raises \<open>OverflowError\<close>.
\<close>

definition to_double :: "int \<Rightarrow> real" where
  "to_double i =
     (let n = nat \<bar>i\<bar>; k = bit_length n - 53 in
      if k = 0 then real_of_int i
      else real_of_int (sgn i * round_half_even (real n / 2 ^ k)) * 2 ^ k)"

definition py_float :: "int \<Rightarrow> py_error + real" where
  "py_float i =
     (if 2 ^ 1024 - 2 ^ 970 \<le> \<bar>i\<bar> then Inl OverflowError else Inr (to_double i))"

definition digit_char :: "nat \<Rightarrow> char" where
  "digit_char d = ''0123456789'' ! d"

fun show_nat :: "nat \<Rightarrow> string" where
  "show_nat n = (if n < 10 then [digit_char n] else show_nat (n div 10) @ [digit_char (n mod 10)])"

declare show_nat.simps [simp del]

text \<open>\<^verbatim>\<open>f"Tenant_{user_id:03d}"\<close>: zero padding to width 3, the sign counted in the width.\<close>

definition zero_pad :: "nat \<Rightarrow> string \<Rightarrow> string" where
  "zero_pad width s = replicate (width - length s) CHR ''0'' @ s"

definition make_tenant_label :: "int \<Rightarrow> string" where
  "make_tenant_label uid =
     ''Tenant_'' @ (if uid < 0 then CHR ''-'' # zero_pad 2 (show_nat (nat (- uid)))
                    else zero_pad 3 (show_nat (nat uid)))"

text \<open>\<^verbatim>\<open>str(n)\<close> for an integer\<close>

definition show_int :: "int \<Rightarrow> string" where
  "show_int i = (if i < 0 then CHR ''-'' # show_nat (nat (- i)) else show_nat (nat i))"

text \<open>
  The format \<^verbatim>\<open>{x:.2f}\<close>, on the real number read for the float. Python rounds the
  binary value of the double, so the two agree where the double is that real number (the
  scores 0, 0.25, 0.5, 0.75 and 1 of integer attributes on the scale 1..5) or lies away from
  a tie of the hundredths (the weights of the module).
\<close>

definition fmt_2f :: "real \<Rightarrow> string" where
  "fmt_2f x =
     (let n = nat (round_half_even (\<bar>x\<bar> * 100)) in
      (if x < 0 then [CHR ''-''] else []) @ show_nat (n div 100) @ [CHR ''.'']
        @ [digit_char (n mod 100 div 10), digit_char (n mod 10)])"

section \<open>Matching and explainability\<close>

definition prettify_feature_name :: "string \<Rightarrow> string" where
  "prettify_feature_name f = py_capitalize (py_replace_char CHR ''_'' CHR '' '' f)"

text \<open>One entry of \<^verbatim>\<open>per_feature_details\<close>: (feature, score, weight, mode).\<close>

type_synonym detail = "string \<times> real \<times> real \<times> string"

text \<open>One entry of \<^verbatim>\<open>candidates\<close>: (row position, compatibility, details).\<close>

type_synonym candidate = "nat \<times> real \<times> detail list"

record match_row =
  out_user_id :: int
  out_tenant_label :: string
  match_rank :: nat
  match_user_id :: int
  match_tenant_label :: string
  compatibility_score :: real
  top_drivers :: string
  explanation_short :: string
  explanation_long :: string
  top_driver_values :: string

text \<open>The loop \<^verbatim>\<open>for f in features\<close> over one pair of rows.\<close>

fun feature_loop ::
  "globals \<Rightarrow> profile \<Rightarrow> profile \<Rightarrow> string list \<Rightarrow> real \<times> detail list
     \<Rightarrow> py_error + (real \<times> detail list)" where
  "feature_loop g a b [] acc = Inr acc"
| "feature_loop g a b (f # fs) (weighted_sum, per_feature_details) =
     (case attrs a f of
        None \<Rightarrow> Inl (KeyError f)
      | Some ai \<Rightarrow>
     (case py_float ai of
        Inl e \<Rightarrow> Inl e
      | Inr av \<Rightarrow>
     (case attrs b f of
        None \<Rightarrow> Inl (KeyError f)
      | Some bi \<Rightarrow>
     (case py_float bi of
        Inl e \<Rightarrow> Inl e
      | Inr bv \<Rightarrow>
     (case feature_score g f av bv of
        Inl e \<Rightarrow> Inl e
      | Inr (sc, mode) \<Rightarrow>
          let w = weight_of g f in
          feature_loop g a b fs
            (weighted_sum + w * sc, per_feature_details @ [(f, sc, w, mode)]))))))"

definition contribution :: "detail \<Rightarrow> real" where
  "contribution x = (case x of (f, sc, w, mode) \<Rightarrow> sc * w)"

text \<open>The body of the loop over \<open>b\<close> past the \<^verbatim>\<open>continue\<close>: the candidate for one pair.\<close>

definition pair_candidate ::
  "globals \<Rightarrow> real \<Rightarrow> profile \<Rightarrow> nat \<Rightarrow> profile \<Rightarrow> py_error + candidate" where
  "pair_candidate g tw a j b =
     (case feature_loop g a b (FEATURES g) (0, []) of
        Inl e \<Rightarrow> Inl e
      | Inr (weighted_sum, per_feature_details) \<Rightarrow>
     (case py_div weighted_sum tw of
        Inl e \<Rightarrow> Inl e
      | Inr q \<Rightarrow>
          let compat = q * 100 in
          Inr (j, compat, py_sort_desc contribution per_feature_details)))"

fun candidates_loop ::
  "globals \<Rightarrow> real \<Rightarrow> profile \<Rightarrow> (nat \<times> profile) list \<Rightarrow> candidate list
     \<Rightarrow> py_error + candidate list" where
  "candidates_loop g tw a [] candidates = Inr candidates"
| "candidates_loop g tw a ((j, b) # rest) candidates =
     (if user_id a = user_id b then candidates_loop g tw a rest candidates
      else
        (case pair_candidate g tw a j b of
           Inl e \<Rightarrow> Inl e
         | Inr c \<Rightarrow> candidates_loop g tw a rest (candidates @ [c])))"

definition driver_part :: "detail \<Rightarrow> string" where
  "driver_part x =
     (case x of (f, sc, w, mode) \<Rightarrow>
        f @ ''(mode='' @ mode @ '', score='' @ fmt_2f sc @ '', w='' @ fmt_2f w @ '')'')"

fun values_hint_loop ::
  "profile \<Rightarrow> profile \<Rightarrow> detail list \<Rightarrow> string list \<Rightarrow> py_error + string list" where
  "values_hint_loop a b [] values_hint = Inr values_hint"
| "values_hint_loop a b ((f, sc, w, mode) # rest) values_hint =
     (case attrs a f of
        None \<Rightarrow> Inl (KeyError f)
      | Some av \<Rightarrow>
     (case attrs b f of
        None \<Rightarrow> Inl (KeyError f)
      | Some bv \<Rightarrow>
          values_hint_loop a b rest
            (values_hint @ [f @ '': '' @ show_int av @ '' vs '' @ show_int bv
               @ '' ('' @ mode @ '', '' @ fmt_2f sc @ '')''])))"

text \<open>The body of the loop over \<^verbatim>\<open>enumerate(top, start=1)\<close>: one output row.\<close>

definition match_row_of ::
  "profile list \<Rightarrow> profile \<Rightarrow> nat \<Rightarrow> candidate \<Rightarrow> py_error + match_row" where
  "match_row_of records a rank c =
     (case c of (j_idx, compat_score, details) \<Rightarrow>
     (case py_index records j_idx of
        Inl e \<Rightarrow> Inl e
      | Inr b \<Rightarrow>
          let top3 = take 3 details;
              driver_parts = map driver_part top3;
              driver_pretty = map (\<lambda>(f, sc, w, mode). prettify_feature_name f) top3;
              short = ''High compatibility driven by '' @ py_join '', '' driver_pretty @ ''.'';
              long = tenant_label a @ '' matches well with '' @ tenant_label b
                @ '' (score '' @ fmt_2f compat_score @ ''%). Top drivers: ''
                @ py_join '', '' driver_pretty @ ''. ''
                @ ''Note: similarity rewards close values, while complementarity rewards balanced pairs ''
                @ ''(on a 1..5 scale, best when a+b is about 6).''
          in
          (case values_hint_loop a b top3 [] of
             Inl e \<Rightarrow> Inl e
           | Inr values_hint \<Rightarrow>
               Inr \<lparr> out_user_id = user_id a,
                     out_tenant_label = tenant_label a,
                     match_rank = rank,
                     match_user_id = user_id b,
                     match_tenant_label = tenant_label b,
                     compatibility_score = py_round2 compat_score,
                     top_drivers = py_join ''; '' driver_parts,
                     explanation_short = short,
                     explanation_long = long,
                     top_driver_values = py_join '' | '' values_hint \<rparr>)))"

fun rows_loop ::
  "profile list \<Rightarrow> profile \<Rightarrow> (nat \<times> candidate) list \<Rightarrow> match_row list
     \<Rightarrow> py_error + match_row list" where
  "rows_loop records a [] out_rows = Inr out_rows"
| "rows_loop records a ((rank, c) # rest) out_rows =
     (case match_row_of records a rank c of
        Inl e \<Rightarrow> Inl e
      | Inr r \<Rightarrow> rows_loop records a rest (out_rows @ [r]))"

text \<open>The body of the loop over \<open>a\<close>: rank the candidates of one entity and emit its rows.\<close>

definition entity_step ::
  "globals \<Rightarrow> real \<Rightarrow> profile list \<Rightarrow> int \<Rightarrow> profile \<Rightarrow> match_row list
     \<Rightarrow> py_error + match_row list" where
  "entity_step g tw records top_n a out_rows =
     (case candidates_loop g tw a (List.enumerate 0 records) [] of
        Inl e \<Rightarrow> Inl e
      | Inr candidates \<Rightarrow>
          let sorted_candidates = py_sort_desc (\<lambda>x. fst (snd x)) candidates;
              top = py_slice_to sorted_candidates top_n
          in rows_loop records a (List.enumerate 1 top) out_rows)"

fun entities_loop ::
  "globals \<Rightarrow> real \<Rightarrow> profile list \<Rightarrow> int \<Rightarrow> profile list \<Rightarrow> match_row list
     \<Rightarrow> py_error + match_row list" where
  "entities_loop g tw records top_n [] out_rows = Inr out_rows"
| "entities_loop g tw records top_n (a # rest) out_rows =
     (case entity_step g tw records top_n a out_rows of
        Inl e \<Rightarrow> Inl e
      | Inr out_rows' \<Rightarrow> entities_loop g tw records top_n rest out_rows')"

definition compute_top_matches ::
  "globals \<Rightarrow> profile list \<Rightarrow> int \<Rightarrow> py_error + match_row list" where
  "compute_top_matches g profiles top_n =
     (let features = FEATURES g;
          total_weight = sum_list (map (weight_of g) features);
          records = profiles
      in entities_loop g total_weight records top_n records [])"

section \<open>Well-formed tables\<close>

text \<open>
  The engine assumes a table that has every configured attribute column, holding numbers
  that \<^verbatim>\<open>float\<close> converts (every integer below \<open>2^1024 - 2^970\<close> in magnitude, within
  the scale or not); the notions below state that assumption and name the constant
  \<^verbatim>\<open>total_weight\<close> of the source.
\<close>

definition has_value :: "profile \<Rightarrow> string \<Rightarrow> bool" where
  "has_value r f =
     (case attrs r f of None \<Rightarrow> False | Some v \<Rightarrow> \<bar>v\<bar> < 2 ^ 1024 - 2 ^ 970)"

definition has_columns :: "globals \<Rightarrow> profile \<Rightarrow> bool" where
  "has_columns g r = list_all (has_value r) (FEATURES g)"

definition well_formed :: "globals \<Rightarrow> profile list \<Rightarrow> bool" where
  "well_formed g records = list_all (has_columns g) records"

definition total_weight :: "globals \<Rightarrow> real" where
  "total_weight g = sum_list (map (weight_of g) (FEATURES g))"

text \<open>A row as the generator lays it out, with the same value in every attribute column.\<close>

definition uniform_profile :: "int \<Rightarrow> int \<Rightarrow> profile" where
  "uniform_profile uid v =
     \<lparr> user_id = uid, tenant_label = make_tenant_label uid, attrs = (\<lambda>f. Some v) \<rparr>"

text \<open>
  The module's constants with another list in \<^verbatim>\<open>FEATURES\<close>; an attribute that
  \<^verbatim>\<open>WEIGHTS\<close> does not list has the default weight 1.0 of \<^verbatim>\<open>weights.get(f, 1.0)\<close>.
\<close>

definition with_features :: "string list \<Rightarrow> globals" where
  "with_features fs = module_globals\<lparr>FEATURES := fs\<rparr>"

text \<open>An entry of \<^verbatim>\<open>per_feature_details\<close> is the one the loop computes for its feature.\<close>

definition detail_ok :: "globals \<Rightarrow> profile \<Rightarrow> profile \<Rightarrow> detail \<Rightarrow> bool" where
  "detail_ok g a b x =
     (case x of (f, sc, w, m) \<Rightarrow>
        w = weight_of g f \<and>
        (case attrs a f of
           None \<Rightarrow> False
         | Some ai \<Rightarrow>
        (case attrs b f of
           None \<Rightarrow> False
         | Some bi \<Rightarrow>
             \<bar>ai\<bar> < 2 ^ 1024 - 2 ^ 970 \<and> \<bar>bi\<bar> < 2 ^ 1024 - 2 ^ 970
             \<and> feature_score g f (to_double ai) (to_double bi) = Inr (sc, m))))"

text \<open>
  The lists the loops build on a well-formed table, named for the proofs: the rows other
  than \<open>a\<close> with their positions, their candidates, the ranked and truncated candidates,
  and the rows emitted for \<open>a\<close>.
\<close>

definition others :: "profile \<Rightarrow> profile list \<Rightarrow> (nat \<times> profile) list" where
  "others a records = filter (\<lambda>jb. user_id a \<noteq> user_id (snd jb)) (List.enumerate 0 records)"

definition cands_of :: "globals \<Rightarrow> real \<Rightarrow> profile \<Rightarrow> profile list \<Rightarrow> candidate list" where
  "cands_of g tw a records =
     map (\<lambda>jb. projr (pair_candidate g tw a (fst jb) (snd jb))) (others a records)"

definition top_of :: "globals \<Rightarrow> real \<Rightarrow> profile list \<Rightarrow> int \<Rightarrow> profile \<Rightarrow> candidate list" where
  "top_of g tw records top_n a =
     py_slice_to (py_sort_desc (\<lambda>x. fst (snd x)) (cands_of g tw a records)) top_n"

definition block_of :: "globals \<Rightarrow> real \<Rightarrow> profile list \<Rightarrow> int \<Rightarrow> profile \<Rightarrow> match_row list" where
  "block_of g tw records top_n a =
     map (\<lambda>rc. projr (match_row_of records a (fst rc) (snd rc)))
       (List.enumerate 1 (top_of g tw records top_n a))"

section \<open>Properties of the scorers\<close>

lemma clamp01_range: "0 \<le> clamp01 x \<and> clamp01 x \<le> 1"
  by (simp add: clamp01_def)

lemma clamp01_id: "0 \<le> x \<Longrightarrow> x \<le> 1 \<Longrightarrow> clamp01 x = x"
  by (simp add: clamp01_def)

lemma similarity_score_eq:
  "similarity_score g a b =
     Inr (if SCALE_MAX g \<le> SCALE_MIN g then 1
          else clamp01 (1 - \<bar>a - b\<bar> / real_of_int (SCALE_MAX g - SCALE_MIN g)))"
  by (simp add: similarity_score_def py_div_def Let_def)

lemma complementarity_score_eq:
  "complementarity_score g a b =
     Inr (if SCALE_MAX g \<le> SCALE_MIN g then 1
          else clamp01 (1 - \<bar>a + b - real_of_int (SCALE_MIN g + SCALE_MAX g)\<bar>
                              / real_of_int (SCALE_MAX g - SCALE_MIN g)))"
  by (simp add: complementarity_score_def py_div_def Let_def)

lemma feature_score_ok:
  "\<exists>sc m. feature_score g f x y = Inr (sc, m) \<and> 0 \<le> sc \<and> sc \<le> 1"
  by (simp add: feature_score_def similarity_score_eq complementarity_score_eq Let_def clamp01_range)

lemma feature_score_sym: "feature_score g f x y = feature_score g f y x"
  by (simp add: feature_score_def similarity_score_eq complementarity_score_eq Let_def
      abs_minus_commute add.commute)

section \<open>The conversion to float\<close>

lemma bit_length_le: "n < 2 ^ k \<Longrightarrow> bit_length n \<le> k"
proof (induction k arbitrary: n)
  case 0
  then show ?case by (simp add: bit_length.simps)
next
  case (Suc k)
  show ?case
  proof (cases "n = 0")
    case True
    then show ?thesis by (simp add: bit_length.simps)
  next
    case False
    from Suc.prems have "n div 2 < 2 ^ k" by simp
    then have "bit_length (n div 2) \<le> k" by (rule Suc.IH)
    with False show ?thesis by (subst bit_length.simps) simp
  qed
qed

lemma double_range: "(2::int) ^ 53 \<le> 2 ^ 1024 - 2 ^ 970"
  by simp

lemma to_double_small: "\<bar>i\<bar> < 2 ^ 53 \<Longrightarrow> to_double i = real_of_int i"
proof -
  assume "\<bar>i\<bar> < 2 ^ 53"
  then have "nat \<bar>i\<bar> < 2 ^ 53" by (simp add: nat_less_iff)
  then have "bit_length (nat \<bar>i\<bar>) \<le> 53" by (rule bit_length_le)
  then show ?thesis by (simp add: to_double_def Let_def)
qed

lemma py_float_ok: "\<bar>i\<bar> < 2 ^ 1024 - 2 ^ 970 \<Longrightarrow> py_float i = Inr (to_double i)"
  by (simp add: py_float_def)

lemma py_float_small: "\<bar>i\<bar> < 2 ^ 53 \<Longrightarrow> py_float i = Inr (real_of_int i)"
proof -
  assume s: "\<bar>i\<bar> < 2 ^ 53"
  with double_range have "\<bar>i\<bar> < 2 ^ 1024 - 2 ^ 970" by linarith
  then show ?thesis by (simp add: py_float_ok to_double_small [OF s])
qed

lemma has_value_small: "attrs r f = Some v \<Longrightarrow> \<bar>v\<bar> < 2 ^ 53 \<Longrightarrow> has_value r f"
proof -
  assume v: "attrs r f = Some v" and s: "\<bar>v\<bar> < 2 ^ 53"
  from s double_range have "\<bar>v\<bar> < 2 ^ 1024 - 2 ^ 970" by linarith
  with v show ?thesis by (simp add: has_value_def)
qed

lemma has_value_float:
  "has_value r f \<Longrightarrow> \<exists>v. attrs r f = Some v \<and> \<bar>v\<bar> < 2 ^ 1024 - 2 ^ 970
      \<and> py_float v = Inr (to_double v)"
  by (cases "attrs r f") (simp_all add: has_value_def py_float_ok)

section \<open>The loop over the features of a pair\<close>

lemma feature_loop_sym:
  assumes "list_all (has_value a) fs" and "list_all (has_value b) fs"
  shows "feature_loop g a b fs acc = feature_loop g b a fs acc"
  using assms
proof (induction fs arbitrary: acc)
  case Nil
  show ?case by simp
next
  case (Cons f fs)
  obtain s d where acc: "acc = (s, d)" by (cases acc)
  from Cons.prems have "has_value a f" and "has_value b f"
    and rest: "list_all (has_value a) fs" "list_all (has_value b) fs"
    by simp_all
  from has_value_float [OF \<open>has_value a f\<close>] obtain ai
    where ai: "attrs a f = Some ai" and fa: "py_float ai = Inr (to_double ai)" by blast
  from has_value_float [OF \<open>has_value b f\<close>] obtain bi
    where bi: "attrs b f = Some bi" and fb: "py_float bi = Inr (to_double bi)" by blast
  obtain sc m where fsc: "feature_score g f (to_double ai) (to_double bi) = Inr (sc, m)"
    using feature_score_ok by blast
  then have fsc': "feature_score g f (to_double bi) (to_double ai) = Inr (sc, m)"
    by (simp add: feature_score_sym [of g f "to_double bi"])
  show ?case unfolding acc
    by (simp add: ai bi fa fb fsc fsc' Cons.IH [OF rest])
qed

lemma feature_loop_char:
  assumes "list_all (has_value a) fs" and "list_all (has_value b) fs"
  shows "\<exists>ds. feature_loop g a b fs (s, d) = Inr (s + sum_list (map contribution ds), d @ ds)
           \<and> map fst ds = fs
           \<and> list_all (detail_ok g a b) ds"
  using assms
proof (induction fs arbitrary: s d)
  case Nil
  show ?case by simp
next
  case (Cons f fs)
  from Cons.prems have "has_value a f" and "has_value b f"
    and rest: "list_all (has_value a) fs" "list_all (has_value b) fs"
    by simp_all
  from has_value_float [OF \<open>has_value a f\<close>] obtain ai
    where ai: "attrs a f = Some ai" and ra: "\<bar>ai\<bar> < 2 ^ 1024 - 2 ^ 970"
      and fa: "py_float ai = Inr (to_double ai)" by blast
  from has_value_float [OF \<open>has_value b f\<close>] obtain bi
    where bi: "attrs b f = Some bi" and rb: "\<bar>bi\<bar> < 2 ^ 1024 - 2 ^ 970"
      and fb: "py_float bi = Inr (to_double bi)" by blast
  obtain sc m where fs: "feature_score g f (to_double ai) (to_double bi) = Inr (sc, m)"
    using feature_score_ok by blast
  from Cons.IH [OF rest, of "s + weight_of g f * sc" "d @ [(f, sc, weight_of g f, m)]"]
  obtain ds where ds: "feature_loop g a b fs (s + weight_of g f * sc, d @ [(f, sc, weight_of g f, m)])
      = Inr (s + weight_of g f * sc + sum_list (map contribution ds), (d @ [(f, sc, weight_of g f, m)]) @ ds)"
    "map fst ds = fs"
    "list_all (detail_ok g a b) ds"
    by blast
  have c: "contribution (f, sc, weight_of g f, m) = weight_of g f * sc"
    by (simp add: contribution_def)
  have step: "feature_loop g a b (f # fs) (s, d)
      = feature_loop g a b fs (s + weight_of g f * sc, d @ [(f, sc, weight_of g f, m)])"
    by (simp add: ai bi fa fb fs Let_def)
  have g1: "feature_loop g a b (f # fs) (s, d)
      = Inr (s + sum_list (map contribution ((f, sc, weight_of g f, m) # ds)),
             d @ ((f, sc, weight_of g f, m) # ds))"
    unfolding step ds(1) by (simp add: c)
  have g2: "map fst ((f, sc, weight_of g f, m) # ds) = f # fs"
    by (simp add: ds(2))
  have g3: "list_all (detail_ok g a b) ((f, sc, weight_of g f, m) # ds)"
    using ds(3) ra rb by (simp add: detail_ok_def ai bi fs)
  show ?case
    by (rule exI [of _ "(f, sc, weight_of g f, m) # ds"]) (intro conjI g1 g2 g3)
qed

section \<open>The loops over the table\<close>

lemma pair_candidate_char:
  assumes "has_columns g a" and "has_columns g b" and "tw \<noteq> 0"
  shows "\<exists>ds. pair_candidate g tw a j b
             = Inr (j, sum_list (map contribution ds) / tw * 100, py_sort_desc contribution ds)
           \<and> feature_loop g a b (FEATURES g) (0, []) = Inr (sum_list (map contribution ds), ds)
           \<and> map fst ds = FEATURES g
           \<and> list_all (detail_ok g a b) ds"
proof -
  from assms(1,2) have "list_all (has_value a) (FEATURES g)"
    "list_all (has_value b) (FEATURES g)"
    by (simp_all add: has_columns_def)
  from feature_loop_char [OF this, of g 0 "[]"]
  obtain ds where fl: "feature_loop g a b (FEATURES g) (0, []) = Inr (sum_list (map contribution ds), ds)"
    and nm: "map fst ds = FEATURES g"
    and rg: "list_all (detail_ok g a b) ds"
    by auto
  have "pair_candidate g tw a j b
      = Inr (j, sum_list (map contribution ds) / tw * 100, py_sort_desc contribution ds)"
    using assms(3) by (simp add: pair_candidate_def fl py_div_def)
  with fl nm rg show ?thesis by (intro exI [of _ ds] conjI)
qed

lemma pair_candidate_sym:
  assumes "has_columns g a" and "has_columns g b"
  shows "map_sum id snd (pair_candidate g tw a j b) = map_sum id snd (pair_candidate g tw b i a)"
proof -
  from assms have "feature_loop g a b (FEATURES g) (0, []) = feature_loop g b a (FEATURES g) (0, [])"
    unfolding has_columns_def by (rule feature_loop_sym)
  then show ?thesis
    by (simp add: pair_candidate_def split: sum.splits prod.splits)
qed

lemma pair_candidate_fst: "pair_candidate g tw a j b = Inr c \<Longrightarrow> fst c = j"
  by (auto simp: pair_candidate_def split: sum.splits prod.splits)

lemma candidates_loop_char:
  assumes "list_all (\<lambda>jb. user_id a \<noteq> user_id (snd jb)
             \<longrightarrow> (\<exists>c. pair_candidate g tw a (fst jb) (snd jb) = Inr c)) xs"
  shows "candidates_loop g tw a xs acc
           = Inr (acc @ map (\<lambda>jb. projr (pair_candidate g tw a (fst jb) (snd jb)))
                          (filter (\<lambda>jb. user_id a \<noteq> user_id (snd jb)) xs))"
  using assms
proof (induction xs arbitrary: acc)
  case Nil
  show ?case by simp
next
  case (Cons x xs)
  obtain j b where x: "x = (j, b)" by (cases x)
  from Cons.prems have rest: "list_all (\<lambda>jb. user_id a \<noteq> user_id (snd jb)
             \<longrightarrow> (\<exists>c. pair_candidate g tw a (fst jb) (snd jb) = Inr c)) xs"
    by simp
  show ?case
  proof (cases "user_id a = user_id b")
    case True
    then show ?thesis unfolding x by (simp add: Cons.IH [OF rest])
  next
    case False
    with Cons.prems obtain c where c: "pair_candidate g tw a j b = Inr c"
      unfolding x by auto
    show ?thesis unfolding x using False by (simp add: c Cons.IH [OF rest])
  qed
qed

lemma values_hint_loop_ok:
  "list_all (\<lambda>x. attrs a (fst x) \<noteq> None \<and> attrs b (fst x) \<noteq> None) ds
     \<Longrightarrow> \<exists>vs. values_hint_loop a b ds acc = Inr vs"
proof (induction ds arbitrary: acc)
  case Nil
  show ?case by simp
next
  case (Cons x ds)
  obtain f sc w m where x: "x = (f, sc, w, m)" by (cases x)
  from Cons.prems obtain av bv where av: "attrs a f = Some av" and bv: "attrs b f = Some bv"
    unfolding x by auto
  from Cons.prems have "list_all (\<lambda>x. attrs a (fst x) \<noteq> None \<and> attrs b (fst x) \<noteq> None) ds"
    by simp
  from Cons.IH [OF this] show ?case unfolding x by (simp add: av bv)
qed

lemma match_row_of_fields:
  assumes "match_row_of records a rank (j, cscore, details) = Inr r"
  shows "j < length records \<and> out_user_id r = user_id a \<and> out_tenant_label r = tenant_label a
    \<and> match_rank r = rank \<and> match_user_id r = user_id (records ! j)
    \<and> match_tenant_label r = tenant_label (records ! j)
    \<and> compatibility_score r = py_round2 cscore
    \<and> top_drivers r = py_join ''; '' (map driver_part (take 3 details))
    \<and> explanation_short r = ''High compatibility driven by ''
         @ py_join '', '' (map (\<lambda>x. prettify_feature_name (fst x)) (take 3 details)) @ ''.''"
proof -
  have pf: "(\<lambda>(f, sc, w, mode). prettify_feature_name f) = (\<lambda>x. prettify_feature_name (fst x))"
    by (simp add: fun_eq_iff split: prod.splits)
  from assms have j: "j < length records"
    by (simp add: match_row_of_def py_index_def split: if_splits)
  from assms obtain vs where vs: "values_hint_loop a (records ! j) (take 3 details) [] = Inr vs"
    by (simp add: match_row_of_def py_index_def j Let_def split: sum.splits)
  from assms show ?thesis
    unfolding match_row_of_def py_index_def Let_def pf
    by (simp add: j vs del: append_assoc) (cases r, simp)
qed

lemma rows_loop_char:
  assumes "list_all (\<lambda>rc. \<exists>r. match_row_of records a (fst rc) (snd rc) = Inr r) xs"
  shows "rows_loop records a xs acc
           = Inr (acc @ map (\<lambda>rc. projr (match_row_of records a (fst rc) (snd rc))) xs)"
  using assms
proof (induction xs arbitrary: acc)
  case Nil
  show ?case by simp
next
  case (Cons x xs)
  obtain rank c where x: "x = (rank, c)" by (cases x)
  from Cons.prems obtain r where r: "match_row_of records a rank c = Inr r"
    unfolding x by auto
  from Cons.prems have "list_all (\<lambda>rc. \<exists>r. match_row_of records a (fst rc) (snd rc) = Inr r) xs"
    by simp
  from Cons.IH [OF this] show ?case unfolding x by (simp add: r)
qed

lemma snd_enumerate_member: "p \<in> set (List.enumerate n xs) \<Longrightarrow> snd p \<in> set xs"
proof -
  assume "p \<in> set (List.enumerate n xs)"
  then have "n \<le> fst p" "fst p < length xs + n" "xs ! (fst p - n) = snd p"
    by (simp_all add: in_set_enumerate_eq)
  then have "fst p - n < length xs" by arith
  then have "xs ! (fst p - n) \<in> set xs" by (rule nth_mem)
  with \<open>xs ! (fst p - n) = snd p\<close> show ?thesis by simp
qed

lemma has_columns_member:
  "well_formed g records \<Longrightarrow> b \<in> set records \<Longrightarrow> has_columns g b"
  by (simp add: well_formed_def list_all_iff)

lemma in_others:
  "jb \<in> set (others a records)
     \<longleftrightarrow> fst jb < length records \<and> snd jb = records ! fst jb \<and> user_id a \<noteq> user_id (snd jb)"
  by (cases jb) (auto simp: others_def in_set_enumerate_eq)

text \<open>Every candidate of a well-formed table is the successful result of its pair.\<close>

lemma cands_of_member:
  assumes "well_formed g records" and "has_columns g a" and "tw \<noteq> 0"
    and "c \<in> set (cands_of g tw a records)"
  shows "fst c < length records \<and> user_id a \<noteq> user_id (records ! fst c)
           \<and> pair_candidate g tw a (fst c) (records ! fst c) = Inr c"
proof -
  from assms(4) obtain jb where jb: "jb \<in> set (others a records)"
    and c: "c = projr (pair_candidate g tw a (fst jb) (snd jb))"
    by (auto simp: cands_of_def)
  from jb [unfolded in_others] have j: "fst jb < length records" and b: "snd jb = records ! fst jb"
    and ne: "user_id a \<noteq> user_id (snd jb)"
    by blast+
  have "has_columns g (snd jb)"
    using assms(1) j b by (simp add: has_columns_member)
  from pair_candidate_char [OF assms(2) this assms(3), of "fst jb"]
  obtain c' where c': "pair_candidate g tw a (fst jb) (snd jb) = Inr c'" by blast
  then have "c = c'" by (simp add: c)
  moreover from c' have "fst c' = fst jb" by (rule pair_candidate_fst)
  ultimately show ?thesis using c' j b ne by simp
qed

lemma candidates_loop_cands_of:
  assumes "well_formed g records" and "has_columns g a" and "tw \<noteq> 0"
  shows "candidates_loop g tw a (List.enumerate 0 records) [] = Inr (cands_of g tw a records)"
proof -
  have "list_all (\<lambda>jb. user_id a \<noteq> user_id (snd jb)
             \<longrightarrow> (\<exists>c. pair_candidate g tw a (fst jb) (snd jb) = Inr c)) (List.enumerate 0 records)"
    unfolding list_all_iff
  proof (intro ballI impI)
    fix jb assume "jb \<in> set (List.enumerate 0 records)"
    then have "snd jb \<in> set records" by (rule snd_enumerate_member)
    then have "has_columns g (snd jb)" using assms(1) by (simp add: has_columns_member)
    from pair_candidate_char [OF assms(2) this assms(3), of "fst jb"]
    show "\<exists>c. pair_candidate g tw a (fst jb) (snd jb) = Inr c" by blast
  qed
  from candidates_loop_char [OF this, of "[]"] show ?thesis
    by (simp add: cands_of_def others_def)
qed

lemma set_py_slice_to: "set (py_slice_to xs n) \<subseteq> set xs"
  by (auto simp: py_slice_to_def dest: in_set_takeD)

lemma set_py_sort_desc [simp]: "set (py_sort_desc k xs) = set xs"
  by (simp add: py_sort_desc_def)

lemma top_of_member:
  "c \<in> set (top_of g tw records top_n a) \<Longrightarrow> c \<in> set (cands_of g tw a records)"
  using set_py_slice_to [of "py_sort_desc (\<lambda>x. fst (snd x)) (cands_of g tw a records)" top_n]
  by (auto simp: top_of_def)

lemma pair_candidate_names:
  assumes "pair_candidate g tw a j b = Inr (j', cs, details)"
    and "has_columns g a" and "has_columns g b" and "tw \<noteq> 0"
  shows "set (map fst details) = set (FEATURES g)"
proof -
  from pair_candidate_char [OF assms(2,3,4), of j] obtain ds where
    pc: "pair_candidate g tw a j b
           = Inr (j, sum_list (map contribution ds) / tw * 100, py_sort_desc contribution ds)"
    and nm: "map fst ds = FEATURES g"
    by blast
  from pc assms(1) have "details = py_sort_desc contribution ds" by simp
  then have "set (map fst details) = set (map fst ds)" by simp
  with nm show ?thesis by simp
qed

lemma match_row_of_ok:
  assumes "well_formed g records" and "has_columns g a" and "tw \<noteq> 0"
    and "c \<in> set (cands_of g tw a records)"
  shows "\<exists>r. match_row_of records a rank c = Inr r"
proof -
  obtain j cs details where c: "c = (j, cs, details)" by (cases c)
  from cands_of_member [OF assms(1,2,3,4)] have j: "j < length records"
    and pc: "pair_candidate g tw a j (records ! j) = Inr (j, cs, details)"
    by (simp_all add: c)
  have hb: "has_columns g (records ! j)"
    using assms(1) j by (simp add: has_columns_member)
  from pair_candidate_names [OF pc assms(2) hb assms(3)]
  have nm: "set (map fst details) = set (FEATURES g)" .
  have "list_all (\<lambda>x. attrs a (fst x) \<noteq> None \<and> attrs (records ! j) (fst x) \<noteq> None) (take 3 details)"
    unfolding list_all_iff
  proof
    fix x assume "x \<in> set (take 3 details)"
    then have "x \<in> set details" by (rule in_set_takeD)
    then have "fst x \<in> set (FEATURES g)" using nm by auto
    with assms(2) hb have "has_value a (fst x)" and "has_value (records ! j) (fst x)"
      by (simp_all add: has_columns_def list_all_iff)
    then show "attrs a (fst x) \<noteq> None \<and> attrs (records ! j) (fst x) \<noteq> None"
      by (auto simp: has_value_def split: option.splits)
  qed
  from values_hint_loop_ok [OF this, of "[]"] obtain vs
    where "values_hint_loop a (records ! j) (take 3 details) [] = Inr vs" by blast
  then show ?thesis
    by (simp add: c match_row_of_def py_index_def j Let_def)
qed

lemma entity_step_char:
  assumes "well_formed g records" and "has_columns g a" and "tw \<noteq> 0"
  shows "entity_step g tw records top_n a acc = Inr (acc @ block_of g tw records top_n a)"
proof -
  have "list_all (\<lambda>rc. \<exists>r. match_row_of records a (fst rc) (snd rc) = Inr r)
          (List.enumerate 1 (top_of g tw records top_n a))"
    unfolding list_all_iff
  proof
    fix rc assume "rc \<in> set (List.enumerate 1 (top_of g tw records top_n a))"
    then have "snd rc \<in> set (top_of g tw records top_n a)"
      by (rule snd_enumerate_member)
    then have "snd rc \<in> set (cands_of g tw a records)" by (rule top_of_member)
    from match_row_of_ok [OF assms this]
    show "\<exists>r. match_row_of records a (fst rc) (snd rc) = Inr r" .
  qed
  from rows_loop_char [OF this, of acc] show ?thesis
    by (simp add: entity_step_def candidates_loop_cands_of [OF assms] Let_def
        block_of_def top_of_def)
qed

lemma entities_loop_char:
  assumes "well_formed g records" and "tw \<noteq> 0" and "set as \<subseteq> set records"
  shows "entities_loop g tw records top_n as acc
           = Inr (acc @ concat (map (block_of g tw records top_n) as))"
  using assms(3)
proof (induction as arbitrary: acc)
  case Nil
  show ?case by simp
next
  case (Cons a as)
  from Cons.prems have "has_columns g a"
    using assms(1) by (simp add: has_columns_member)
  from entity_step_char [OF assms(1) this assms(2)] Cons.IH Cons.prems
  show ?case by simp
qed

lemma compute_top_matches_char:
  assumes "well_formed g records" and "total_weight g \<noteq> 0"
  shows "compute_top_matches g records top_n
           = Inr (concat (map (block_of g (total_weight g) records top_n) records))"
  using entities_loop_char [OF assms, of records top_n "[]"]
  by (simp add: compute_top_matches_def total_weight_def Let_def)

section \<open>Rounding and the weighted sum\<close>

lemma round_half_even_bounds:
  "\<lfloor>x\<rfloor> \<le> round_half_even x \<and> round_half_even x \<le> \<lfloor>x\<rfloor> + 1"
  by (simp add: round_half_even_def Let_def)

lemma round_half_even_mono:
  assumes "x \<le> y"
  shows "round_half_even x \<le> round_half_even y"
proof (cases "\<lfloor>x\<rfloor> = \<lfloor>y\<rfloor>")
  case True
  have "x - of_int \<lfloor>y\<rfloor> \<le> y - of_int \<lfloor>y\<rfloor>" using assms by simp
  then show ?thesis
    by (simp add: round_half_even_def Let_def True)
next
  case False
  from assms have "\<lfloor>x\<rfloor> \<le> \<lfloor>y\<rfloor>" by (rule floor_mono)
  with False have "\<lfloor>x\<rfloor> + 1 \<le> \<lfloor>y\<rfloor>" by simp
  with round_half_even_bounds [of x] round_half_even_bounds [of y]
  show ?thesis by linarith
qed


lemma py_round2_mono: "x \<le> y \<Longrightarrow> py_round2 x \<le> py_round2 y"
proof -
  assume "x \<le> y"
  then have "x * 100 \<le> y * 100" by simp
  then have "round_half_even (x * 100) \<le> round_half_even (y * 100)"
    by (rule round_half_even_mono)
  then show ?thesis by (simp add: py_round2_def divide_right_mono)
qed




lemma total_weight_module: "total_weight module_globals = 21 / 2"
  by (simp add: total_weight_def weight_of_def module_globals_def)






lemma with_features_module: "with_features (FEATURES module_globals) = module_globals"
  by (simp add: with_features_def)




section \<open>Candidates, ranking and the emitted rows\<close>

lemma enumerate_0_upt: "List.enumerate 0 xs = map (\<lambda>j. (j, xs ! j)) [0..<length xs]"
proof -
  have "List.enumerate 0 (map (\<lambda>j. xs ! j) [0..<length xs]) = map (\<lambda>k. (k, xs ! k)) [0..<length xs]"
    by (rule enumerate_map_upt)
  then show ?thesis by (simp add: map_nth)
qed

lemma map_fst_others:
  "map fst (others a records)
     = filter (\<lambda>j. user_id a \<noteq> user_id (records ! j)) [0..<length records]"
  by (simp add: others_def enumerate_0_upt filter_map comp_def)

lemma length_others:
  "length (others a records) = length (filter (\<lambda>b. user_id a \<noteq> user_id b) records)"
proof -
  have "map snd (others a records) = filter (\<lambda>b. user_id a \<noteq> user_id b) records"
    unfolding others_def
    by (metis (mono_tags, lifting) comp_apply filter_cong filter_map map_snd_enumerate)
  then have "length (map snd (others a records)) = length (filter (\<lambda>b. user_id a \<noteq> user_id b) records)"
    by simp
  then show ?thesis by simp
qed

lemma length_others_distinct:
  assumes "distinct (map user_id records)" and "a \<in> set records"
  shows "length (others a records) = length records - 1"
proof -
  let ?ids = "map user_id records"
  have "length (filter (\<lambda>b. user_id a \<noteq> user_id b) records)
      = length (filter (\<lambda>u. user_id a \<noteq> u) ?ids)"
    by (simp add: filter_map comp_def)
  also have "filter (\<lambda>u. user_id a \<noteq> u) ?ids = removeAll (user_id a) ?ids"
    by (induction records) auto
  also have "\<dots> = remove1 (user_id a) ?ids"
    using assms(1) by (simp add: distinct_remove1_removeAll)
  also have "length \<dots> = length ?ids - 1"
    using assms(2) by (simp add: length_remove1)
  finally show ?thesis by (simp add: length_others)
qed

lemma map_fst_cands_of:
  assumes "well_formed g records" and "has_columns g a" and "tw \<noteq> 0"
  shows "map fst (cands_of g tw a records) = map fst (others a records)"
  unfolding cands_of_def map_map
proof (rule map_cong [OF refl])
  fix jb assume jb: "jb \<in> set (others a records)"
  then have "projr (pair_candidate g tw a (fst jb) (snd jb)) \<in> set (cands_of g tw a records)"
    by (simp add: cands_of_def)
  from cands_of_member [OF assms this] jb [unfolded in_others]
  have "pair_candidate g tw a (fst (projr (pair_candidate g tw a (fst jb) (snd jb))))
          (records ! fst (projr (pair_candidate g tw a (fst jb) (snd jb))))
        = Inr (projr (pair_candidate g tw a (fst jb) (snd jb)))"
    by blast
  have hb: "has_columns g (snd jb)"
    using jb [unfolded in_others] assms(1) by (simp add: has_columns_member)
  from pair_candidate_char [OF assms(2) hb assms(3), of "fst jb"] obtain c
    where c: "pair_candidate g tw a (fst jb) (snd jb) = Inr c" by blast
  from pair_candidate_fst [OF c] c
  show "(fst \<circ> (\<lambda>jb. projr (pair_candidate g tw a (fst jb) (snd jb)))) jb = fst jb"
    by simp
qed

lemma length_py_slice_to:
  "length (py_slice_to xs n)
     = (if 0 \<le> n then min (nat n) (length xs) else length xs - nat (- n))"
  by (simp add: py_slice_to_def min.commute)

lemma take_length_take: "take (length (take m xs)) xs = take m xs"
  by (cases "m \<le> length xs") (simp_all add: min_def)

lemma py_slice_to_take: "py_slice_to xs n = take (length (py_slice_to xs n)) xs"
proof (cases "0 \<le> n")
  case True
  then have "py_slice_to xs n = take (nat n) xs" by (simp add: py_slice_to_def)
  then show ?thesis by (simp only: take_length_take)
next
  case False
  then have "py_slice_to xs n = take (length xs - nat (- n)) xs" by (simp add: py_slice_to_def)
  then show ?thesis by (simp only: take_length_take)
qed

lemma sorted_py_sort_desc: "sorted_wrt (\<lambda>x y. k y \<le> k x) (py_sort_desc k xs)"
proof -
  have "sorted (map (\<lambda>x. - k x) (sort_key (\<lambda>x. - k x) xs))" by (rule sorted_sort_key)
  then show ?thesis by (simp add: py_sort_desc_def sorted_map)
qed

lemma sorted_py_slice_to:
  "sorted_wrt P xs \<Longrightarrow> sorted_wrt P (py_slice_to xs n)"
  by (simp add: py_slice_to_def)

lemma length_block_of: "length (block_of g tw records top_n a) = length (top_of g tw records top_n a)"
  by (simp add: block_of_def)

lemma block_of_nth:
  assumes "well_formed g records" and "has_columns g a" and "tw \<noteq> 0"
    and "k < length (top_of g tw records top_n a)"
  shows "match_row_of records a (Suc k) (top_of g tw records top_n a ! k)
           = Inr (block_of g tw records top_n a ! k)"
proof -
  let ?top = "top_of g tw records top_n a"
  from assms(4) have "?top ! k \<in> set ?top" by (rule nth_mem)
  then have "?top ! k \<in> set (cands_of g tw a records)" by (rule top_of_member)
  from match_row_of_ok [OF assms(1,2,3) this, of "Suc k"] obtain r
    where r: "match_row_of records a (Suc k) (?top ! k) = Inr r" by blast
  have "block_of g tw records top_n a ! k
      = projr (match_row_of records a (fst (List.enumerate 1 ?top ! k)) (snd (List.enumerate 1 ?top ! k)))"
    using assms(4) by (simp add: block_of_def)
  also have "List.enumerate 1 ?top ! k = (Suc k, ?top ! k)"
    using assms(4) by (simp add: nth_enumerate_eq)
  finally show ?thesis by (simp add: r)
qed

lemma block_of_row:
  assumes "well_formed g records" and "has_columns g a" and "tw \<noteq> 0"
    and "r \<in> set (block_of g tw records top_n a)"
  shows "\<exists>k j cs details. k < length (top_of g tw records top_n a)
           \<and> top_of g tw records top_n a ! k = (j, cs, details)
           \<and> match_row_of records a (Suc k) (j, cs, details) = Inr r
           \<and> j < length records \<and> user_id a \<noteq> user_id (records ! j)
           \<and> pair_candidate g tw a j (records ! j) = Inr (j, cs, details)"
proof -
  let ?top = "top_of g tw records top_n a"
  from assms(4) obtain k where k: "k < length ?top" and r: "r = block_of g tw records top_n a ! k"
    by (auto simp: in_set_conv_nth length_block_of)
  obtain j cs details where c: "?top ! k = (j, cs, details)" by (cases "?top ! k")
  from block_of_nth [OF assms(1,2,3) k] have row: "match_row_of records a (Suc k) (j, cs, details) = Inr r"
    by (simp add: c r)
  from k have "?top ! k \<in> set ?top" by (rule nth_mem)
  then have "?top ! k \<in> set (cands_of g tw a records)" by (rule top_of_member)
  from cands_of_member [OF assms(1,2,3) this]
  have "j < length records \<and> user_id a \<noteq> user_id (records ! j)
           \<and> pair_candidate g tw a j (records ! j) = Inr (j, cs, details)"
    by (simp add: c)
  with k c row show ?thesis by blast
qed

lemma block_of_ids:
  assumes "well_formed g records" and "has_columns g a" and "tw \<noteq> 0"
    and "r \<in> set (block_of g tw records top_n a)"
  shows "out_user_id r = user_id a \<and> match_user_id r \<noteq> user_id a"
proof -
  from block_of_row [OF assms] obtain k j cs details where
    row: "match_row_of records a (Suc k) (j, cs, details) = Inr r"
    and ne: "user_id a \<noteq> user_id (records ! j)"
    by blast
  from match_row_of_fields [OF row] ne show ?thesis by auto
qed

lemma length_cands_of: "length (cands_of g tw a records) = length (others a records)"
  by (simp add: cands_of_def)

lemma length_top_of:
  "length (top_of g tw records top_n a)
     = (if 0 \<le> top_n then min (nat top_n) (length (others a records))
        else length (others a records) - nat (- top_n))"
  by (simp add: top_of_def length_py_slice_to py_sort_desc_def length_cands_of)

lemma filter_concat_blocks:
  assumes "distinct (map user_id as)" and "E \<in> set as"
    and "\<And>a r. a \<in> set as \<Longrightarrow> r \<in> set (blk a) \<Longrightarrow> out_user_id r = user_id a"
  shows "filter (\<lambda>r. out_user_id r = user_id E) (concat (map blk as)) = blk E"
  using assms
proof (induction as)
  case Nil
  then show ?case by simp
next
  case (Cons a as)
  have own: "\<And>x. x \<in> set (a # as) \<Longrightarrow> filter (\<lambda>r. out_user_id r = user_id x) (blk x) = blk x"
    using Cons.prems(3) by (simp add: filter_id_conv)
  show ?case
  proof (cases "E = a")
    case True
    have "filter (\<lambda>r. out_user_id r = user_id E) (concat (map blk as)) = []"
    proof -
      have "\<forall>r\<in>set (concat (map blk as)). out_user_id r \<noteq> user_id E"
      proof
        fix r assume "r \<in> set (concat (map blk as))"
        then obtain b where b: "b \<in> set as" and rb: "r \<in> set (blk b)" by auto
        from Cons.prems(3) [of b r] b rb have "out_user_id r = user_id b" by simp
        moreover have "user_id b \<noteq> user_id E"
        proof
          assume "user_id b = user_id E"
          moreover from b have "user_id b \<in> user_id ` set as" by (rule imageI)
          ultimately show False using Cons.prems(1) True by simp
        qed
        ultimately show "out_user_id r \<noteq> user_id E" by simp
      qed
      then show ?thesis by (simp add: filter_empty_conv)
    qed
    with own [of a] True show ?thesis by simp
  next
    case False
    with Cons.prems(2) have E: "E \<in> set as" by simp
    from Cons.prems(1) have d: "distinct (map user_id as)" by simp
    have ih: "filter (\<lambda>r. out_user_id r = user_id E) (concat (map blk as)) = blk E"
      using Cons.IH [OF d E] Cons.prems(3) by simp
    have "filter (\<lambda>r. out_user_id r = user_id E) (blk a) = []"
    proof -
      have "\<forall>r\<in>set (blk a). out_user_id r \<noteq> user_id E"
      proof
        fix r assume "r \<in> set (blk a)"
        with Cons.prems(3) [of a r] have "out_user_id r = user_id a" by simp
        moreover have "user_id a \<noteq> user_id E"
        proof
          assume "user_id a = user_id E"
          moreover from E have "user_id E \<in> user_id ` set as" by (rule imageI)
          ultimately show False using Cons.prems(1) by simp
        qed
        ultimately show "out_user_id r \<noteq> user_id E" by simp
      qed
      then show ?thesis by (simp add: filter_empty_conv)
    qed
    with ih show ?thesis by simp
  qed
qed

lemma has_columns_uniform: "\<bar>v\<bar> < 2 ^ 53 \<Longrightarrow> has_columns g (uniform_profile uid v)"
proof -
  assume "\<bar>v\<bar> < 2 ^ 53"
  then have "\<And>f. has_value (uniform_profile uid v) f"
    by (rule has_value_small [rotated]) (simp add: uniform_profile_def)
  then show ?thesis by (simp add: has_columns_def list_all_iff)
qed

lemma user_id_uniform: "user_id (uniform_profile uid v) = uid"
  by (simp add: uniform_profile_def)

lemma mset_py_sort_desc: "mset (py_sort_desc k xs) = mset xs"
  by (simp add: py_sort_desc_def)

lemma length_py_sort_desc: "length (py_sort_desc k xs) = length xs"
  by (simp add: py_sort_desc_def)

lemma top_of_take:
  "top_of g tw records top_n a
     = take (length (top_of g tw records top_n a))
         (py_sort_desc (\<lambda>c. fst (snd c)) (cands_of g tw a records))"
  unfolding top_of_def by (rule py_slice_to_take)

lemma block_facts:
  assumes "well_formed g records" and "has_columns g a" and "tw \<noteq> 0"
  shows "map (\<lambda>r. (match_user_id r, match_tenant_label r, compatibility_score r))
             (block_of g tw records top_n a)
           = map (\<lambda>c. (user_id (records ! fst c), tenant_label (records ! fst c),
                        py_round2 (fst (snd c))))
               (take (length (block_of g tw records top_n a))
                  (py_sort_desc (\<lambda>c. fst (snd c)) (cands_of g tw a records)))"
    and "map match_rank (block_of g tw records top_n a)
           = [1..<Suc (length (block_of g tw records top_n a))]"
    and "sorted_wrt (\<lambda>x y. y \<le> x) (map compatibility_score (block_of g tw records top_n a))"
    and "\<forall>r\<in>set (block_of g tw records top_n a). out_user_id r = user_id a"
proof -
  let ?blk = "block_of g tw records top_n a"
  let ?top = "top_of g tw records top_n a"
  let ?full = "py_sort_desc (\<lambda>c. fst (snd c)) (cands_of g tw a records)"
  have len: "length ?blk = length ?top" by (rule length_block_of)
  have top: "?top = take (length ?blk) ?full"
    unfolding len by (rule top_of_take)
  have row: "\<And>k. k < length ?top \<Longrightarrow>
      match_user_id (?blk ! k) = user_id (records ! fst (?top ! k))
      \<and> match_tenant_label (?blk ! k) = tenant_label (records ! fst (?top ! k))
      \<and> compatibility_score (?blk ! k) = py_round2 (fst (snd (?top ! k)))
      \<and> match_rank (?blk ! k) = Suc k"
  proof -
    fix k assume k: "k < length ?top"
    obtain j cs details where c: "?top ! k = (j, cs, details)" by (cases "?top ! k")
    from block_of_nth [OF assms k] have "match_row_of records a (Suc k) (j, cs, details) = Inr (?blk ! k)"
      by (simp add: c)
    from match_row_of_fields [OF this] show "match_user_id (?blk ! k) = user_id (records ! fst (?top ! k))
      \<and> match_tenant_label (?blk ! k) = tenant_label (records ! fst (?top ! k))
      \<and> compatibility_score (?blk ! k) = py_round2 (fst (snd (?top ! k)))
      \<and> match_rank (?blk ! k) = Suc k"
      by (simp add: c)
  qed
  have m: "map (\<lambda>r. (match_user_id r, match_tenant_label r, compatibility_score r)) ?blk
      = map (\<lambda>c. (user_id (records ! fst c), tenant_label (records ! fst c),
                        py_round2 (fst (snd c)))) ?top"
    by (rule nth_equalityI) (simp_all add: len row)
  from m top show "map (\<lambda>r. (match_user_id r, match_tenant_label r, compatibility_score r)) ?blk
           = map (\<lambda>c. (user_id (records ! fst c), tenant_label (records ! fst c),
                        py_round2 (fst (snd c)))) (take (length ?blk) ?full)"
    by simp
  show "map match_rank ?blk = [1..<Suc (length ?blk)]"
    by (rule nth_equalityI) (simp_all add: len row nth_upt del: upt_Suc)
  have cs: "map compatibility_score ?blk = map (\<lambda>c. py_round2 (fst (snd c))) ?top"
    by (rule nth_equalityI) (simp_all add: len row)
  have "sorted_wrt (\<lambda>c d. fst (snd d) \<le> fst (snd c)) ?full"
    by (rule sorted_py_sort_desc)
  then have "sorted_wrt (\<lambda>c d. fst (snd d) \<le> fst (snd c)) ?top"
    unfolding top_of_def by (rule sorted_py_slice_to)
  then have "sorted_wrt (\<lambda>c d. py_round2 (fst (snd d)) \<le> py_round2 (fst (snd c))) ?top"
    by (rule sorted_wrt_mono_rel [rotated]) (simp add: py_round2_mono)
  then show "sorted_wrt (\<lambda>x y. y \<le> x) (map compatibility_score ?blk)"
    unfolding cs by (simp add: sorted_wrt_map)
  show "\<forall>r\<in>set ?blk. out_user_id r = user_id a"
    using block_of_ids [OF assms] by blast
qed

lemma block_of_empty:
  "length (top_of g tw records top_n a) = 0 \<Longrightarrow> block_of g tw records top_n a = []"
  by (simp add: block_of_def)

text \<open>Every row of a block comes from one pair of rows of the table.\<close>

lemma emitted_row:
  assumes "well_formed g records" and "has_columns g a" and "tw \<noteq> 0"
    and "r \<in> set (block_of g tw records top_n a)"
  shows "\<exists>j rank ds. j < length records \<and> user_id a \<noteq> user_id (records ! j)
           \<and> feature_loop g a (records ! j) (FEATURES g) (0, [])
               = Inr (sum_list (map contribution ds), ds)
           \<and> map fst ds = FEATURES g
           \<and> list_all (detail_ok g a (records ! j)) ds
           \<and> match_row_of records a rank
                (j, sum_list (map contribution ds) / tw * 100, py_sort_desc contribution ds) = Inr r"
proof -
  from block_of_row [OF assms] obtain k j cs details where
    row: "match_row_of records a (Suc k) (j, cs, details) = Inr r"
    and j: "j < length records" and ne: "user_id a \<noteq> user_id (records ! j)"
    and pc: "pair_candidate g tw a j (records ! j) = Inr (j, cs, details)"
    by blast
  have hb: "has_columns g (records ! j)"
    using assms(1) j by (simp add: has_columns_member)
  from pair_candidate_char [OF assms(2) hb assms(3), of j] obtain ds where
    pc': "pair_candidate g tw a j (records ! j)
             = Inr (j, sum_list (map contribution ds) / tw * 100, py_sort_desc contribution ds)"
    and fl: "feature_loop g a (records ! j) (FEATURES g) (0, []) = Inr (sum_list (map contribution ds), ds)"
    and nm: "map fst ds = FEATURES g"
    and ok: "list_all (detail_ok g a (records ! j)) ds"
    by blast
  from pc pc' have "cs = sum_list (map contribution ds) / tw * 100"
    "details = py_sort_desc contribution ds" by simp_all
  with row have "match_row_of records a (Suc k)
      (j, sum_list (map contribution ds) / tw * 100, py_sort_desc contribution ds) = Inr r"
    by simp
  with j ne fl nm ok show ?thesis by blast
qed



lemma contribution_fun: "contribution = (\<lambda>(f, sc, w, m). w * sc)"
  by (simp add: fun_eq_iff contribution_def mult.commute)



lemma uniform_member:
  "a \<in> set [uniform_profile i v, uniform_profile j v] \<Longrightarrow> \<exists>k. a = uniform_profile k v"
  by auto

lemma explanation_short_of_block:
  assumes "well_formed g records" and "has_columns g a" and "tw \<noteq> 0"
    and "r \<in> set (block_of g tw records top_n a)"
  shows "\<exists>j ds. j < length records
           \<and> out_user_id r = user_id a \<and> match_user_id r = user_id (records ! j)
           \<and> feature_loop g a (records ! j) (FEATURES g) (0, [])
               = Inr (sum_list (map contribution ds), ds)
           \<and> map fst ds = FEATURES g
           \<and> explanation_short r = ''High compatibility driven by ''
               @ py_join '', '' (map prettify_feature_name
                   (map fst (take 3 (py_sort_desc (\<lambda>(f, sc, w, m). w * sc) ds)))) @ ''.''"
proof -
  from emitted_row [OF assms] obtain j rank ds where
    j: "j < length records"
    and fl: "feature_loop g a (records ! j) (FEATURES g) (0, [])
               = Inr (sum_list (map contribution ds), ds)"
    and nm: "map fst ds = FEATURES g"
    and row: "match_row_of records a rank
                (j, sum_list (map contribution ds) / tw * 100, py_sort_desc contribution ds) = Inr r"
    by blast
  from match_row_of_fields [OF row]
  have "out_user_id r = user_id a" "match_user_id r = user_id (records ! j)"
    "explanation_short r = ''High compatibility driven by ''
               @ py_join '', '' (map prettify_feature_name
                   (map fst (take 3 (py_sort_desc (\<lambda>(f, sc, w, m). w * sc) ds)))) @ ''.''"
    by (simp_all add: contribution_fun comp_def)
  with j fl nm show ?thesis by blast
qed

lemma list_of_length_3: "length xs = 3 \<Longrightarrow> \<exists>x1 x2 x3. xs = [x1, x2, x3]"
  by (simp add: numeral_3_eq_3 length_Suc_conv) blast

lemma module_loop_uniform:
  "feature_loop module_globals (uniform_profile i 3) (uniform_profile j 3)
     (FEATURES module_globals) (0, [])
   = Inr (21 / 2,
       [(''cleanliness_level'', 1, 13 / 10, ''similarity''),
        (''noise_tolerance'', 1, 13 / 10, ''similarity''),
        (''sleep_schedule'', 1, 6 / 5, ''similarity''),
        (''routine_structure'', 1, 1, ''similarity''),
        (''WFH_frequency'', 1, 4 / 5, ''similarity''),
        (''sociability_level'', 1, 1, ''complementarity''),
        (''guest_tolerance'', 1, 1, ''similarity''),
        (''privacy_need'', 1, 11 / 10, ''similarity''),
        (''conflict_style'', 1, 9 / 10, ''similarity''),
        (''shared_spaces_usage'', 1, 9 / 10, ''complementarity'')])"
  by (simp add: module_globals_def uniform_profile_def feature_score_def similarity_score_eq
      complementarity_score_eq weight_of_def clamp01_def Let_def py_float_small)

lemma module_names_uniform:
  "map prettify_feature_name (map fst (take 3 (py_sort_desc (\<lambda>(f, sc, w, m). w * sc)
       [(''cleanliness_level'', 1, 13 / 10, ''similarity''),
        (''noise_tolerance'', 1, 13 / 10, ''similarity''),
        (''sleep_schedule'', 1, 6 / 5, ''similarity''),
        (''routine_structure'', 1, 1, ''similarity''),
        (''WFH_frequency'', 1, 4 / 5, ''similarity''),
        (''sociability_level'', 1, 1, ''complementarity''),
        (''guest_tolerance'', 1, 1, ''similarity''),
        (''privacy_need'', 1, 11 / 10, ''similarity''),
        (''conflict_style'', 1, 9 / 10, ''similarity''),
        (''shared_spaces_usage'', 1, 9 / 10 :: real, ''complementarity'')])))
   = [''Cleanliness level'', ''Noise tolerance'', ''Sleep schedule'']"
  by (simp add: py_sort_desc_def prettify_feature_name_def py_capitalize_def py_replace_char_def
      ascii_upper_def ascii_lower_def)

lemma map_singleton_const:
  "length xs = 1 \<Longrightarrow> \<forall>x\<in>set xs. f x = s \<Longrightarrow> map f xs = [s]"
  by (cases xs) auto

text \<open>The short explanation of every row emitted for a table of two rows that hold 3 everywhere.\<close>

lemma explanation_short_uniform:
  assumes "a \<in> set [uniform_profile 1 3, uniform_profile 2 3]"
    and "r \<in> set (block_of module_globals (total_weight module_globals)
                     [uniform_profile 1 3, uniform_profile 2 3] top_n a)"
  shows "explanation_short r
           = ''High compatibility driven by Cleanliness level, Noise tolerance, Sleep schedule.''"
proof -
  let ?t = "[uniform_profile 1 3, uniform_profile 2 3]"
  have tw: "total_weight module_globals \<noteq> 0" by (simp add: total_weight_module)
  have wf: "well_formed module_globals ?t" by (simp add: well_formed_def has_columns_uniform)
  from uniform_member [OF assms(1)] obtain i where a: "a = uniform_profile i 3" by blast
  have hc: "has_columns module_globals a" unfolding a by (rule has_columns_uniform) simp
  from explanation_short_of_block [OF wf hc tw assms(2)] obtain j ds where
    j: "j < length ?t"
    and fl: "feature_loop module_globals a (?t ! j) (FEATURES module_globals) (0, [])
               = Inr (sum_list (map contribution ds), ds)"
    and ex: "explanation_short r = ''High compatibility driven by ''
               @ py_join '', '' (map prettify_feature_name
                   (map fst (take 3 (py_sort_desc (\<lambda>(f, sc, w, m). w * sc) ds)))) @ ''.''"
    by blast
  from j have "?t ! j \<in> set ?t" by (rule nth_mem)
  from uniform_member [OF this] obtain k where b: "?t ! j = uniform_profile k 3" by blast
  from fl module_loop_uniform [of i k] have "ds =
       [(''cleanliness_level'', 1, 13 / 10, ''similarity''),
        (''noise_tolerance'', 1, 13 / 10, ''similarity''),
        (''sleep_schedule'', 1, 6 / 5, ''similarity''),
        (''routine_structure'', 1, 1, ''similarity''),
        (''WFH_frequency'', 1, 4 / 5, ''similarity''),
        (''sociability_level'', 1, 1, ''complementarity''),
        (''guest_tolerance'', 1, 1, ''similarity''),
        (''privacy_need'', 1, 11 / 10, ''similarity''),
        (''conflict_style'', 1, 9 / 10, ''similarity''),
        (''shared_spaces_usage'', 1, 9 / 10, ''complementarity'')]"
    unfolding a b by simp
  then show ?thesis unfolding ex by (simp only: module_names_uniform) simp
qed

section \<open>Orderings left open by equal keys\<close>

text \<open>
  The candidates of an entity in the order the sort leaves them, each reduced to its row
  position and its compatibility.
\<close>

lemma block_prefix:
  assumes "well_formed g records" and "has_columns g a" and "tw \<noteq> 0"
  shows "\<exists>full.
           mset (map fst full)
             = mset (filter (\<lambda>j. user_id a \<noteq> user_id (records ! j)) [0..<length records])
         \<and> list_all (\<lambda>(j, c). \<exists>details.
               pair_candidate g tw a j (records ! j) = Inr (j, c, details)) full
         \<and> sorted_wrt (\<lambda>x y. snd y \<le> snd x) full
         \<and> length (block_of g tw records top_n a) \<le> length full
         \<and> map (\<lambda>r. (match_user_id r, match_tenant_label r, compatibility_score r))
               (block_of g tw records top_n a)
             = map (\<lambda>(j, c). (user_id (records ! j), tenant_label (records ! j), py_round2 c))
                 (take (length (block_of g tw records top_n a)) full)"
proof -
  let ?cands = "cands_of g tw a records"
  let ?sorted = "py_sort_desc (\<lambda>c. fst (snd c)) ?cands"
  let ?full = "map (\<lambda>c. (fst c, fst (snd c))) ?sorted"
  let ?blk = "block_of g tw records top_n a"
  have "mset (map fst ?full) = image_mset fst (mset ?sorted)"
    by (simp add: comp_def)
  also have "\<dots> = mset (map fst ?cands)"
    by (simp add: mset_py_sort_desc)
  finally have p1: "mset (map fst ?full)
      = mset (filter (\<lambda>j. user_id a \<noteq> user_id (records ! j)) [0..<length records])"
    by (simp add: map_fst_cands_of [OF assms] map_fst_others)
  have p2: "list_all (\<lambda>(j, c). \<exists>details.
               pair_candidate g tw a j (records ! j) = Inr (j, c, details)) ?full"
    unfolding list_all_iff
  proof
    fix x assume "x \<in> set ?full"
    then obtain c where c: "c \<in> set ?cands" and x: "x = (fst c, fst (snd c))" by auto
    from cands_of_member [OF assms c]
    have "pair_candidate g tw a (fst c) (records ! fst c) = Inr c" by simp
    moreover have "c = (fst c, fst (snd c), snd (snd c))" by simp
    ultimately have "\<exists>details.
        pair_candidate g tw a (fst c) (records ! fst c) = Inr (fst c, fst (snd c), details)"
      by metis
    then show "case x of (j, c) \<Rightarrow> \<exists>details.
               pair_candidate g tw a j (records ! j) = Inr (j, c, details)"
      unfolding x by simp
  qed
  have "sorted_wrt (\<lambda>c d. fst (snd d) \<le> fst (snd c)) ?sorted" by (rule sorted_py_sort_desc)
  then have p3: "sorted_wrt (\<lambda>x y. snd y \<le> snd x) ?full"
    by (simp add: sorted_wrt_map)
  have p4: "length ?blk \<le> length ?full"
    by (simp add: length_block_of top_of_def length_py_slice_to length_py_sort_desc)
  have p5: "map (\<lambda>r. (match_user_id r, match_tenant_label r, compatibility_score r)) ?blk
             = map (\<lambda>(j, c). (user_id (records ! j), tenant_label (records ! j), py_round2 c))
                 (take (length ?blk) ?full)"
    unfolding block_facts(1) [OF assms]
    by (simp add: take_map comp_def)
  show ?thesis
    by (rule exI [of _ ?full]) (intro conjI p1 p2 p3 p4 p5)
qed



section \<open>Claims about the scorers\<close>

text \<open>
  C5. On a scale with \<open>SCALE_MIN < SCALE_MAX\<close> (the module's is 1..5),
  \<open>similarity_score a b\<close> returns \<open>1 - |a - b| / (SCALE_MAX - SCALE_MIN)\<close> clamped to
  \<open>[0, 1]\<close>, for all values and so for those within the scale; it returns 1 on equal
  arguments and 0 on the two ends of the scale. On the degenerate scale
  \<open>SCALE_MAX = SCALE_MIN\<close> it returns 1 and raises no \<open>ZeroDivisionError\<close>: the result is
  a value, not an error.
\<close>

theorem similarity_score_formula:
  "(SCALE_MIN g < SCALE_MAX g \<longrightarrow>
      similarity_score g a b
        = Inr (max 0 (min 1 (1 - \<bar>a - b\<bar> / real_of_int (SCALE_MAX g - SCALE_MIN g))))
      \<and> similarity_score g a a = Inr 1
      \<and> similarity_score g (real_of_int (SCALE_MIN g)) (real_of_int (SCALE_MAX g)) = Inr 0)
   \<and> (SCALE_MAX g = SCALE_MIN g \<longrightarrow> similarity_score g a b = Inr 1)"
  by (simp add: similarity_score_eq clamp01_def)

theorem similarity_score_formula_witness:
  "SCALE_MIN module_globals < SCALE_MAX module_globals
   \<and> similarity_score module_globals 1 2 = Inr (3 / 4)
   \<and> similarity_score module_globals 1 1 = Inr 1
   \<and> similarity_score module_globals 1 5 = Inr 0
   \<and> SCALE_MAX (module_globals\<lparr>SCALE_MAX := 1\<rparr>) = SCALE_MIN (module_globals\<lparr>SCALE_MAX := 1\<rparr>)
   \<and> similarity_score (module_globals\<lparr>SCALE_MAX := 1\<rparr>) 1 2 = Inr 1"
  using similarity_score_formula [of module_globals 1 2]
    similarity_score_formula [of "module_globals\<lparr>SCALE_MAX := 1\<rparr>" 1 2]
  by (simp add: module_globals_def)

text \<open>
  C6. On a scale with \<open>SCALE_MIN < SCALE_MAX\<close>, \<open>complementarity_score a b\<close> returns
  \<open>1 - |a + b - (SCALE_MIN + SCALE_MAX)| / (SCALE_MAX - SCALE_MIN)\<close> clamped to \<open>[0, 1]\<close>;
  the result is 1 exactly when \<open>a + b = SCALE_MIN + SCALE_MAX\<close>, and it is 0 at
  \<open>(SCALE_MIN, SCALE_MIN)\<close> and at \<open>(SCALE_MAX, SCALE_MAX)\<close>.
\<close>

theorem complementarity_score_formula:
  "SCALE_MIN g < SCALE_MAX g \<Longrightarrow>
     complementarity_score g a b
       = Inr (max 0 (min 1 (1 - \<bar>a + b - real_of_int (SCALE_MIN g + SCALE_MAX g)\<bar>
                                  / real_of_int (SCALE_MAX g - SCALE_MIN g))))
     \<and> (complementarity_score g a b = Inr 1 \<longleftrightarrow> a + b = real_of_int (SCALE_MIN g + SCALE_MAX g))
     \<and> complementarity_score g (real_of_int (SCALE_MIN g)) (real_of_int (SCALE_MIN g)) = Inr 0
     \<and> complementarity_score g (real_of_int (SCALE_MAX g)) (real_of_int (SCALE_MAX g)) = Inr 0"
proof -
  assume lt: "SCALE_MIN g < SCALE_MAX g"
  define M where "M = real_of_int (SCALE_MAX g - SCALE_MIN g)"
  define T where "T = real_of_int (SCALE_MIN g + SCALE_MAX g)"
  have M: "0 < M" using lt by (simp add: M_def)
  have eq: "\<And>x y. complementarity_score g x y = Inr (max 0 (min 1 (1 - \<bar>x + y - T\<bar> / M)))"
    using lt by (simp add: complementarity_score_eq clamp01_def M_def T_def)
  have one: "max 0 (min 1 (1 - \<bar>a + b - T\<bar> / M)) = 1 \<longleftrightarrow> a + b = T"
  proof
    assume "max 0 (min 1 (1 - \<bar>a + b - T\<bar> / M)) = 1"
    then have "1 \<le> 1 - \<bar>a + b - T\<bar> / M" by (simp add: max_def min_def split: if_splits)
    then have "\<bar>a + b - T\<bar> / M \<le> 0" by simp
    then have "\<bar>a + b - T\<bar> \<le> 0" using M by (simp add: divide_le_0_iff)
    then show "a + b = T" by simp
  next
    assume "a + b = T"
    then show "max 0 (min 1 (1 - \<bar>a + b - T\<bar> / M)) = 1" by simp
  qed
  have lo: "\<bar>real_of_int (SCALE_MIN g) + real_of_int (SCALE_MIN g) - T\<bar> = M"
    using lt by (simp add: M_def T_def)
  have hi: "\<bar>real_of_int (SCALE_MAX g) + real_of_int (SCALE_MAX g) - T\<bar> = M"
    using lt by (simp add: M_def T_def)
  have z: "max 0 (min 1 (1 - M / M)) = (0::real)" using M by simp
  show ?thesis
    unfolding eq using one by (simp only: lo hi z M_def [symmetric] T_def [symmetric]) simp
qed

theorem complementarity_score_formula_witness:
  "SCALE_MIN module_globals < SCALE_MAX module_globals
   \<and> complementarity_score module_globals 2 3 = Inr (3 / 4)
   \<and> complementarity_score module_globals 1 1 = Inr 0
   \<and> complementarity_score module_globals 5 5 = Inr 0"
proof -
  have h: "SCALE_MIN module_globals < SCALE_MAX module_globals"
    by (simp add: module_globals_def)
  from complementarity_score_formula [OF h, of 2 3] h show ?thesis
    by (simp add: module_globals_def)
qed

text \<open>
  C9, as the code has it. The engine converts every attribute value with
  \<^verbatim>\<open>float(a[f])\<close> before it scores it, and \<^verbatim>\<open>float\<close> raises \<open>OverflowError\<close> on an
  integer beyond the largest double. On the table below the first row holds \<open>10^400\<close> in
  its attribute columns, a value outside the scale, and the engine raises that error.
\<close>

theorem float_overflow_counterexample:
  "compute_top_matches module_globals [uniform_profile 1 (10 ^ 400), uniform_profile 2 3] 5
     = Inl OverflowError"
  by (simp add: compute_top_matches_def entity_step_def pair_candidate_def uniform_profile_def
        module_globals_def py_float_def enumerate_eq_zip)

text \<open>
  C9, amended. For every pair of numbers, within the scale or not, each scorer and the
  dispatch \<open>feature_score\<close> return a value, never an error, and the value lies in
  \<open>[0, 1]\<close>. The conversion \<^verbatim>\<open>float(i)\<close> raises \<open>OverflowError\<close> exactly on the integers
  \<open>i\<close> with \<open>2^1024 - 2^970 \<le> |i|\<close>; on every table whose attribute columns hold
  integers below that bound in magnitude, within the scale or not,
  \<open>compute_top_matches\<close> returns a table and raises nothing.
\<close>

theorem scorers_clamped_no_error:
  "(\<exists>s. similarity_score g x y = Inr s \<and> 0 \<le> s \<and> s \<le> 1)
   \<and> (\<exists>s. complementarity_score g x y = Inr s \<and> 0 \<le> s \<and> s \<le> 1)
   \<and> (\<exists>s m. feature_score g f x y = Inr (s, m) \<and> 0 \<le> s \<and> s \<le> 1)
   \<and> (py_float i = Inl OverflowError \<longleftrightarrow> 2 ^ 1024 - 2 ^ 970 \<le> \<bar>i\<bar>)
   \<and> (well_formed module_globals records
        \<longrightarrow> (\<exists>out. compute_top_matches module_globals records top_n = Inr out))"
proof -
  have a: "\<exists>s. similarity_score g x y = Inr s \<and> 0 \<le> s \<and> s \<le> 1"
    by (simp add: similarity_score_eq clamp01_range)
  have b: "\<exists>s. complementarity_score g x y = Inr s \<and> 0 \<le> s \<and> s \<le> 1"
    by (simp add: complementarity_score_eq clamp01_range)
  have c: "\<exists>s m. feature_score g f x y = Inr (s, m) \<and> 0 \<le> s \<and> s \<le> 1"
    by (rule feature_score_ok)
  have p: "py_float i = Inl OverflowError \<longleftrightarrow> 2 ^ 1024 - 2 ^ 970 \<le> \<bar>i\<bar>"
    by (simp add: py_float_def)
  have d: "well_formed module_globals records
        \<longrightarrow> (\<exists>out. compute_top_matches module_globals records top_n = Inr out)"
  proof
    assume wf: "well_formed module_globals records"
    have tw: "total_weight module_globals \<noteq> 0" by (simp add: total_weight_module)
    from compute_top_matches_char [OF wf tw, of top_n]
    show "\<exists>out. compute_top_matches module_globals records top_n = Inr out" by blast
  qed
  from a b c p d show ?thesis by (intro conjI)
qed

theorem scorers_clamped_no_error_witness:
  "well_formed module_globals [uniform_profile 1 9, uniform_profile 2 (- 3), uniform_profile 3 (2 ^ 60)]
   \<and> (\<exists>out. compute_top_matches module_globals
         [uniform_profile 1 9, uniform_profile 2 (- 3), uniform_profile 3 (2 ^ 60)] 5 = Inr out)
   \<and> similarity_score module_globals 9 (- 3) = Inr 0
   \<and> complementarity_score module_globals 9 (- 3) = Inr 1
   \<and> py_float (10 ^ 400) = Inl OverflowError"
proof -
  let ?t = "[uniform_profile 1 9, uniform_profile 2 (- 3), uniform_profile 3 (2 ^ 60)]"
  have wf: "well_formed module_globals ?t"
    by (simp add: well_formed_def has_columns_def list_all_iff has_value_def uniform_profile_def)
  have s: "similarity_score module_globals 9 (- 3) = Inr 0"
    by (simp add: similarity_score_eq clamp01_def module_globals_def)
  have c: "complementarity_score module_globals 9 (- 3) = Inr 1"
    by (simp add: complementarity_score_eq clamp01_def module_globals_def)
  note th = scorers_clamped_no_error [of module_globals 9 "- 3" "''x''" "10 ^ 400" ?t 5]
  from th wf have o: "\<exists>out. compute_top_matches module_globals ?t 5 = Inr out" by blast
  from th have "py_float (10 ^ 400) = Inl OverflowError \<longleftrightarrow> 2 ^ 1024 - 2 ^ 970 \<le> \<bar>10 ^ 400 :: int\<bar>"
    by blast
  then have f: "py_float (10 ^ 400) = Inl OverflowError" by simp
  from wf o s c f show ?thesis by (intro conjI)
qed

text \<open>
  C3. Both scorers are symmetric in their two arguments, for all values and so for those
  within the scale; and for two rows \<open>A\<close>, \<open>B\<close> that have the attribute columns, the
  candidate computed for \<open>(A, B)\<close> and the one computed for \<open>(B, A)\<close> carry the same
  compatibility percentage (and the same sorted details).
\<close>

theorem score_symmetry:
  "similarity_score g x y = similarity_score g y x
   \<and> complementarity_score g x y = complementarity_score g y x
   \<and> (has_columns module_globals A \<and> has_columns module_globals B \<longrightarrow>
        (\<exists>cs ds. pair_candidate module_globals (total_weight module_globals) A j B = Inr (j, cs, ds)
               \<and> pair_candidate module_globals (total_weight module_globals) B i A = Inr (i, cs, ds)))"
proof -
  have a: "similarity_score g x y = similarity_score g y x"
    by (simp add: similarity_score_eq abs_minus_commute)
  have b: "complementarity_score g x y = complementarity_score g y x"
    by (simp add: complementarity_score_eq add.commute)
  have c: "has_columns module_globals A \<and> has_columns module_globals B \<longrightarrow>
        (\<exists>cs ds. pair_candidate module_globals (total_weight module_globals) A j B = Inr (j, cs, ds)
               \<and> pair_candidate module_globals (total_weight module_globals) B i A = Inr (i, cs, ds))"
  proof
    assume h: "has_columns module_globals A \<and> has_columns module_globals B"
    have tw: "total_weight module_globals \<noteq> 0" by (simp add: total_weight_module)
    from pair_candidate_char [of module_globals A B "total_weight module_globals" j] h tw
    obtain cs ds where ab: "pair_candidate module_globals (total_weight module_globals) A j B
        = Inr (j, cs, ds)" by blast
    from pair_candidate_char [of module_globals B A "total_weight module_globals" i] h tw
    obtain cs' ds' where ba: "pair_candidate module_globals (total_weight module_globals) B i A
        = Inr (i, cs', ds')" by blast
    from h have hA: "has_columns module_globals A" and hB: "has_columns module_globals B"
      by simp_all
    from pair_candidate_sym [OF hA hB, of "total_weight module_globals" j i] ab ba
    have "cs' = cs \<and> ds' = ds" by simp
    with ab ba show "\<exists>cs ds. pair_candidate module_globals (total_weight module_globals) A j B = Inr (j, cs, ds)
               \<and> pair_candidate module_globals (total_weight module_globals) B i A = Inr (i, cs, ds)"
      by blast
  qed
  from a b c show ?thesis by (intro conjI)
qed

theorem score_symmetry_witness:
  "has_columns module_globals \<lparr>user_id = 1, tenant_label = ''Tenant_001'', attrs = (\<lambda>f. Some 2)\<rparr>
   \<and> has_columns module_globals \<lparr>user_id = 2, tenant_label = ''Tenant_002'', attrs = (\<lambda>f. Some 5)\<rparr>
   \<and> (\<exists>cs ds.
         pair_candidate module_globals (total_weight module_globals)
           \<lparr>user_id = 1, tenant_label = ''Tenant_001'', attrs = (\<lambda>f. Some 2)\<rparr> 1
           \<lparr>user_id = 2, tenant_label = ''Tenant_002'', attrs = (\<lambda>f. Some 5)\<rparr> = Inr (1, cs, ds)
       \<and> pair_candidate module_globals (total_weight module_globals)
           \<lparr>user_id = 2, tenant_label = ''Tenant_002'', attrs = (\<lambda>f. Some 5)\<rparr> 0
           \<lparr>user_id = 1, tenant_label = ''Tenant_001'', attrs = (\<lambda>f. Some 2)\<rparr> = Inr (0, cs, ds))"
proof -
  let ?A = "\<lparr>user_id = 1, tenant_label = ''Tenant_001'', attrs = (\<lambda>f. Some (2::int))\<rparr>"
  let ?B = "\<lparr>user_id = 2, tenant_label = ''Tenant_002'', attrs = (\<lambda>f. Some (5::int))\<rparr>"
  have hA: "has_columns module_globals ?A"
    by (simp add: has_columns_def list_all_iff has_value_small)
  have hB: "has_columns module_globals ?B"
    by (simp add: has_columns_def list_all_iff has_value_small)
  from score_symmetry [of module_globals 2 5 ?A ?B 1 0] hA hB
  have "\<exists>cs ds.
         pair_candidate module_globals (total_weight module_globals) ?A 1 ?B = Inr (1, cs, ds)
       \<and> pair_candidate module_globals (total_weight module_globals) ?B 0 ?A = Inr (0, cs, ds)"
    by blast
  with hA hB show ?thesis by (intro conjI)
qed

section \<open>Claims about the ranking\<close>

text \<open>
  C1. On a table that has the attribute columns and whose \<open>user_id\<close> values are pairwise
  distinct, for every row \<open>E\<close> and every \<open>top_n \<ge> 1\<close>, \<open>compute_top_matches\<close> returns a
  table with exactly \<open>min top_n (n - 1)\<close> rows for \<open>E\<close>; no row of the output matches an
  entity with itself; and the candidates collected for \<open>E\<close>, before any sorting, are the
  rows at the positions whose \<open>user_id\<close> differs from that of \<open>E\<close>: the test is on the id,
  not on the position.
\<close>

theorem top_matches_count:
  assumes "well_formed module_globals records"
    and "distinct (map user_id records)"
    and "E \<in> set records"
    and "1 \<le> top_n"
  shows "\<exists>out cands.
           compute_top_matches module_globals records top_n = Inr out
         \<and> length (filter (\<lambda>r. out_user_id r = user_id E) out)
             = min (nat top_n) (length records - 1)
         \<and> (\<forall>r\<in>set out. match_user_id r \<noteq> out_user_id r)
         \<and> candidates_loop module_globals (total_weight module_globals) E
              (List.enumerate 0 records) [] = Inr cands
         \<and> map fst cands
             = filter (\<lambda>j. user_id E \<noteq> user_id (records ! j)) [0..<length records]"
proof -
  let ?g = module_globals
  let ?tw = "total_weight module_globals"
  let ?blk = "block_of ?g ?tw records top_n"
  have tw: "?tw \<noteq> 0" by (simp add: total_weight_module)
  have hc: "\<And>a. a \<in> set records \<Longrightarrow> has_columns ?g a"
    using assms(1) by (simp add: has_columns_member)
  have out: "compute_top_matches ?g records top_n = Inr (concat (map ?blk records))"
    by (rule compute_top_matches_char [OF assms(1) tw])
  have ids: "\<And>a r. a \<in> set records \<Longrightarrow> r \<in> set (?blk a)
      \<Longrightarrow> out_user_id r = user_id a \<and> match_user_id r \<noteq> user_id a"
    using block_of_ids [OF assms(1) hc tw] by blast
  have "filter (\<lambda>r. out_user_id r = user_id E) (concat (map ?blk records)) = ?blk E"
    using filter_concat_blocks [OF assms(2,3), of ?blk] ids by blast
  then have cnt: "length (filter (\<lambda>r. out_user_id r = user_id E) (concat (map ?blk records)))
      = min (nat top_n) (length records - 1)"
    using assms(4) by (simp add: length_block_of length_top_of length_others_distinct [OF assms(2,3)])
  have self: "\<forall>r\<in>set (concat (map ?blk records)). match_user_id r \<noteq> out_user_id r"
  proof
    fix r assume "r \<in> set (concat (map ?blk records))"
    then obtain a where "a \<in> set records" "r \<in> set (?blk a)" by auto
    from ids [OF this] show "match_user_id r \<noteq> out_user_id r" by simp
  qed
  have cl: "candidates_loop ?g ?tw E (List.enumerate 0 records) [] = Inr (cands_of ?g ?tw E records)"
    by (rule candidates_loop_cands_of [OF assms(1) hc [OF assms(3)] tw])
  have idx: "map fst (cands_of ?g ?tw E records)
             = filter (\<lambda>j. user_id E \<noteq> user_id (records ! j)) [0..<length records]"
    by (simp add: map_fst_cands_of [OF assms(1) hc [OF assms(3)] tw] map_fst_others)
  show ?thesis
    by (rule exI [of _ "concat (map ?blk records)"], rule exI [of _ "cands_of ?g ?tw E records"])
       (intro conjI out cnt self cl idx)
qed

theorem top_matches_count_witness:
  "well_formed module_globals [uniform_profile 1 3, uniform_profile 2 5, uniform_profile 3 4]
   \<and> distinct (map user_id [uniform_profile 1 3, uniform_profile 2 5, uniform_profile 3 4])
   \<and> uniform_profile 2 5 \<in> set [uniform_profile 1 3, uniform_profile 2 5, uniform_profile 3 4]
   \<and> (1::int) \<le> 5
   \<and> (\<exists>out cands.
           compute_top_matches module_globals
             [uniform_profile 1 3, uniform_profile 2 5, uniform_profile 3 4] 5 = Inr out
         \<and> length (filter (\<lambda>r. out_user_id r = 2) out) = 2
         \<and> (\<forall>r\<in>set out. match_user_id r \<noteq> out_user_id r)
         \<and> candidates_loop module_globals (total_weight module_globals) (uniform_profile 2 5)
              (List.enumerate 0 [uniform_profile 1 3, uniform_profile 2 5, uniform_profile 3 4]) []
             = Inr cands
         \<and> map fst cands = [0, 2])"
proof -
  let ?t = "[uniform_profile 1 3, uniform_profile 2 5, uniform_profile 3 4]"
  have wf: "well_formed module_globals ?t"
    by (simp add: well_formed_def has_columns_uniform)
  have d: "distinct (map user_id ?t)" by (simp add: user_id_uniform)
  have m: "uniform_profile 2 5 \<in> set ?t" by simp
  have n: "(1::int) \<le> 5" by simp
  have f: "filter (\<lambda>j. (2::int) \<noteq> user_id (?t ! j)) [0..<length ?t] = [0, 2]"
    by (simp add: user_id_uniform upt_rec)
  have k: "min (nat 5) (length ?t - 1) = 2" by simp
  have c: "\<exists>out cands.
           compute_top_matches module_globals ?t 5 = Inr out
         \<and> length (filter (\<lambda>r. out_user_id r = 2) out) = 2
         \<and> (\<forall>r\<in>set out. match_user_id r \<noteq> out_user_id r)
         \<and> candidates_loop module_globals (total_weight module_globals) (uniform_profile 2 5)
              (List.enumerate 0 ?t) [] = Inr cands
         \<and> map fst cands = [0, 2]"
    using top_matches_count [OF wf d m n] unfolding user_id_uniform f k .
  from wf d m n c show ?thesis by (intro conjI)
qed

text \<open>
  C2. On a table that has the attribute columns, the output is the concatenation of one
  block of rows per entity, in table order. The block of an entity is a prefix of a full
  descending ordering of its candidates: \<open>full\<close> lists, once each, the rows with another
  \<open>user_id\<close>, every one with the compatibility the engine computes for the pair, in
  non-increasing order of compatibility, and the rows of the block name, in order, the
  first candidates of \<open>full\<close> with their rounded compatibility. Which of two candidates of
  equal compatibility comes first is left open. Within the block \<open>match_rank\<close> runs
  1, 2, ..., k and the emitted \<open>compatibility_score\<close> is non-increasing.
\<close>

theorem top_matches_sorted_prefix:
  assumes "well_formed module_globals records"
  shows "\<exists>blocks.
           compute_top_matches module_globals records top_n = Inr (concat blocks)
         \<and> length blocks = length records
         \<and> (\<forall>i<length records. \<exists>full.
               mset (map fst full)
                 = mset (filter (\<lambda>j. user_id (records ! i) \<noteq> user_id (records ! j))
                           [0..<length records])
             \<and> list_all (\<lambda>(j, c). \<exists>details.
                   pair_candidate module_globals (total_weight module_globals)
                     (records ! i) j (records ! j) = Inr (j, c, details)) full
             \<and> sorted_wrt (\<lambda>x y. snd y \<le> snd x) full
             \<and> length (blocks ! i) \<le> length full
             \<and> map (\<lambda>r. (match_user_id r, match_tenant_label r, compatibility_score r)) (blocks ! i)
                 = map (\<lambda>(j, c). (user_id (records ! j), tenant_label (records ! j), py_round2 c))
                     (take (length (blocks ! i)) full)
             \<and> map match_rank (blocks ! i) = [1..<Suc (length (blocks ! i))]
             \<and> sorted_wrt (\<lambda>x y. y \<le> x) (map compatibility_score (blocks ! i))
             \<and> (\<forall>r\<in>set (blocks ! i). out_user_id r = user_id (records ! i)))"
proof -
  let ?g = module_globals
  let ?tw = "total_weight module_globals"
  let ?blk = "block_of ?g ?tw records top_n"
  have tw: "?tw \<noteq> 0" by (simp add: total_weight_module)
  have out: "compute_top_matches ?g records top_n = Inr (concat (map ?blk records))"
    by (rule compute_top_matches_char [OF assms tw])
  have len: "length (map ?blk records) = length records" by simp
  have each: "\<forall>i<length records. \<exists>full.
               mset (map fst full)
                 = mset (filter (\<lambda>j. user_id (records ! i) \<noteq> user_id (records ! j))
                           [0..<length records])
             \<and> list_all (\<lambda>(j, c). \<exists>details.
                   pair_candidate ?g ?tw (records ! i) j (records ! j) = Inr (j, c, details)) full
             \<and> sorted_wrt (\<lambda>x y. snd y \<le> snd x) full
             \<and> length (map ?blk records ! i) \<le> length full
             \<and> map (\<lambda>r. (match_user_id r, match_tenant_label r, compatibility_score r))
                   (map ?blk records ! i)
                 = map (\<lambda>(j, c). (user_id (records ! j), tenant_label (records ! j), py_round2 c))
                     (take (length (map ?blk records ! i)) full)
             \<and> map match_rank (map ?blk records ! i) = [1..<Suc (length (map ?blk records ! i))]
             \<and> sorted_wrt (\<lambda>x y. y \<le> x) (map compatibility_score (map ?blk records ! i))
             \<and> (\<forall>r\<in>set (map ?blk records ! i). out_user_id r = user_id (records ! i))"
  proof (intro allI impI)
    fix i assume i: "i < length records"
    let ?a = "records ! i"
    from i have "?a \<in> set records" by (rule nth_mem)
    then have hc: "has_columns ?g ?a" using assms by (simp add: has_columns_member)
    have nth: "map ?blk records ! i = ?blk ?a" using i by simp
    note bf = block_facts [OF assms hc tw, of top_n]
    from block_prefix [OF assms hc tw, of top_n] obtain full where
      p: "mset (map fst full)
             = mset (filter (\<lambda>j. user_id ?a \<noteq> user_id (records ! j)) [0..<length records])"
         "list_all (\<lambda>(j, c). \<exists>details.
               pair_candidate ?g ?tw ?a j (records ! j) = Inr (j, c, details)) full"
         "sorted_wrt (\<lambda>x y. snd y \<le> snd x) full"
         "length (?blk ?a) \<le> length full"
         "map (\<lambda>r. (match_user_id r, match_tenant_label r, compatibility_score r)) (?blk ?a)
             = map (\<lambda>(j, c). (user_id (records ! j), tenant_label (records ! j), py_round2 c))
                 (take (length (?blk ?a)) full)"
      by blast
    show "\<exists>full.
               mset (map fst full)
                 = mset (filter (\<lambda>j. user_id ?a \<noteq> user_id (records ! j)) [0..<length records])
             \<and> list_all (\<lambda>(j, c). \<exists>details.
                   pair_candidate ?g ?tw ?a j (records ! j) = Inr (j, c, details)) full
             \<and> sorted_wrt (\<lambda>x y. snd y \<le> snd x) full
             \<and> length (map ?blk records ! i) \<le> length full
             \<and> map (\<lambda>r. (match_user_id r, match_tenant_label r, compatibility_score r))
                   (map ?blk records ! i)
                 = map (\<lambda>(j, c). (user_id (records ! j), tenant_label (records ! j), py_round2 c))
                     (take (length (map ?blk records ! i)) full)
             \<and> map match_rank (map ?blk records ! i) = [1..<Suc (length (map ?blk records ! i))]
             \<and> sorted_wrt (\<lambda>x y. y \<le> x) (map compatibility_score (map ?blk records ! i))
             \<and> (\<forall>r\<in>set (map ?blk records ! i). out_user_id r = user_id ?a)"
      unfolding nth
      by (rule exI [of _ full]) (intro conjI p bf(2) bf(3) bf(4))
  qed
  show ?thesis
    by (rule exI [of _ "map ?blk records"]) (intro conjI out len each)
qed

theorem top_matches_sorted_prefix_witness:
  "well_formed module_globals [uniform_profile 1 3, uniform_profile 2 5, uniform_profile 3 4]
   \<and> (\<exists>blocks full.
         compute_top_matches module_globals
           [uniform_profile 1 3, uniform_profile 2 5, uniform_profile 3 4] 1 = Inr (concat blocks)
       \<and> length blocks = 3
       \<and> sorted_wrt (\<lambda>x y. snd y \<le> snd x) full
       \<and> map (\<lambda>r. (match_user_id r, match_tenant_label r, compatibility_score r)) (blocks ! 0)
           = map (\<lambda>(j, c).
                   (user_id ([uniform_profile 1 3, uniform_profile 2 5, uniform_profile 3 4] ! j),
                    tenant_label ([uniform_profile 1 3, uniform_profile 2 5, uniform_profile 3 4] ! j),
                    py_round2 c))
               (take (length (blocks ! 0)) full)
       \<and> map match_rank (blocks ! 0) = [1..<Suc (length (blocks ! 0))]
       \<and> sorted_wrt (\<lambda>x y. y \<le> x) (map compatibility_score (blocks ! 0)))"
proof -
  let ?t = "[uniform_profile 1 3, uniform_profile 2 5, uniform_profile 3 4]"
  have wf: "well_formed module_globals ?t"
    by (simp add: well_formed_def has_columns_uniform)
  from top_matches_sorted_prefix [OF wf, of 1] obtain blocks where
    out: "compute_top_matches module_globals ?t 1 = Inr (concat blocks)"
    and len: "length blocks = length ?t"
    and each: "\<forall>i<length ?t. \<exists>full.
               mset (map fst full)
                 = mset (filter (\<lambda>j. user_id (?t ! i) \<noteq> user_id (?t ! j)) [0..<length ?t])
             \<and> list_all (\<lambda>(j, c). \<exists>details.
                   pair_candidate module_globals (total_weight module_globals)
                     (?t ! i) j (?t ! j) = Inr (j, c, details)) full
             \<and> sorted_wrt (\<lambda>x y. snd y \<le> snd x) full
             \<and> length (blocks ! i) \<le> length full
             \<and> map (\<lambda>r. (match_user_id r, match_tenant_label r, compatibility_score r)) (blocks ! i)
                 = map (\<lambda>(j, c). (user_id (?t ! j), tenant_label (?t ! j), py_round2 c))
                     (take (length (blocks ! i)) full)
             \<and> map match_rank (blocks ! i) = [1..<Suc (length (blocks ! i))]
             \<and> sorted_wrt (\<lambda>x y. y \<le> x) (map compatibility_score (blocks ! i))
             \<and> (\<forall>r\<in>set (blocks ! i). out_user_id r = user_id (?t ! i))"
    by blast
  have "0 < length ?t" by simp
  with each obtain full where
    s: "sorted_wrt (\<lambda>x y. snd y \<le> snd x) full"
    and m: "map (\<lambda>r. (match_user_id r, match_tenant_label r, compatibility_score r)) (blocks ! 0)
                 = map (\<lambda>(j, c). (user_id (?t ! j), tenant_label (?t ! j), py_round2 c))
                     (take (length (blocks ! 0)) full)"
    and r: "map match_rank (blocks ! 0) = [1..<Suc (length (blocks ! 0))]"
    and e: "sorted_wrt (\<lambda>x y. y \<le> x) (map compatibility_score (blocks ! 0))"
    by blast
  have l3: "length blocks = 3" using len by simp
  have "\<exists>blocks full.
         compute_top_matches module_globals ?t 1 = Inr (concat blocks)
       \<and> length blocks = 3
       \<and> sorted_wrt (\<lambda>x y. snd y \<le> snd x) full
       \<and> map (\<lambda>r. (match_user_id r, match_tenant_label r, compatibility_score r)) (blocks ! 0)
           = map (\<lambda>(j, c). (user_id (?t ! j), tenant_label (?t ! j), py_round2 c))
               (take (length (blocks ! 0)) full)
       \<and> map match_rank (blocks ! 0) = [1..<Suc (length (blocks ! 0))]
       \<and> sorted_wrt (\<lambda>x y. y \<le> x) (map compatibility_score (blocks ! 0))"
    by (rule exI [of _ blocks], rule exI [of _ full]) (intro conjI out l3 s m r e)
  with wf show ?thesis by (intro conjI)
qed

text \<open>
  C10, as the code has it. A negative \<open>top_n\<close> can emit zero rows: the slice
  \<^verbatim>\<open>candidates[:top_n]\<close> drops the last \<open>|top_n|\<close> candidates of an entity, and nothing
  is left when the entity has no more than \<open>|top_n|\<close> of them. The table below has two
  rows, with the ids 1 and 2 and values within the scale; each entity has one candidate,
  \<open>top_n = -1\<close> drops it, and the output is the empty table, as it is for \<open>top_n = 0\<close>.
\<close>

theorem top_n_negative_counterexample:
  "distinct (map user_id [uniform_profile 1 3, uniform_profile 2 5])
   \<and> 1 \<le> length [uniform_profile 1 3, uniform_profile 2 5]
   \<and> compute_top_matches module_globals [uniform_profile 1 3, uniform_profile 2 5] (- 1) = Inr []"
proof -
  let ?g = module_globals
  let ?tw = "total_weight module_globals"
  let ?t = "[uniform_profile 1 3, uniform_profile 2 5]"
  let ?blk = "block_of ?g ?tw ?t (- 1)"
  have tw: "?tw \<noteq> 0" by (simp add: total_weight_module)
  have wf: "well_formed ?g ?t" by (simp add: well_formed_def has_columns_uniform)
  have o1: "length (others (uniform_profile 1 3) ?t) = 1"
    by (simp add: length_others user_id_uniform)
  have o2: "length (others (uniform_profile 2 5) ?t) = 1"
    by (simp add: length_others user_id_uniform)
  have b1: "?blk (uniform_profile 1 3) = []"
    by (rule block_of_empty) (simp add: length_top_of o1)
  have b2: "?blk (uniform_profile 2 5) = []"
    by (rule block_of_empty) (simp add: length_top_of o2)
  have d: "distinct (map user_id ?t)" by (simp add: user_id_uniform)
  have n: "1 \<le> length ?t" by simp
  have c: "compute_top_matches ?g ?t (- 1) = Inr []"
    using compute_top_matches_char [OF wf tw, of "- 1"] by (simp add: b1 b2)
  from d n c show ?thesis by (intro conjI)
qed

text \<open>
  C10, amended. On a table that has the attribute columns and pairwise distinct
  \<open>user_id\<close> values, \<open>top_n = 0\<close> yields the empty table, and a negative \<open>top_n\<close> yields,
  for each entity, exactly \<open>max 0 ((n - 1) - |top_n|)\<close> rows (none when
  \<open>n - 1 \<le> |top_n|\<close>), which name in order the first candidates of a full descending
  ordering \<open>full\<close> of the entity's candidates.
\<close>

theorem top_n_zero_and_negative:
  assumes "well_formed module_globals records" and "distinct (map user_id records)"
  shows "compute_top_matches module_globals records 0 = Inr []
     \<and> (top_n < 0 \<longrightarrow>
          (\<exists>blocks.
             compute_top_matches module_globals records top_n = Inr (concat blocks)
           \<and> length blocks = length records
           \<and> (\<forall>i<length records.
                 int (length (blocks ! i)) = max 0 (int (length records) - 1 - \<bar>top_n\<bar>)
               \<and> (\<exists>full.
                     mset (map fst full)
                       = mset (filter (\<lambda>j. user_id (records ! i) \<noteq> user_id (records ! j))
                                 [0..<length records])
                   \<and> list_all (\<lambda>(j, c). \<exists>details.
                         pair_candidate module_globals (total_weight module_globals)
                           (records ! i) j (records ! j) = Inr (j, c, details)) full
                   \<and> sorted_wrt (\<lambda>x y. snd y \<le> snd x) full
                   \<and> map (\<lambda>r. (match_user_id r, match_tenant_label r, compatibility_score r))
                         (blocks ! i)
                       = map (\<lambda>(j, c). (user_id (records ! j), tenant_label (records ! j),
                                         py_round2 c))
                           (take (length (blocks ! i)) full))
               \<and> (\<forall>r\<in>set (blocks ! i). out_user_id r = user_id (records ! i)))))"
proof -
  let ?g = module_globals
  let ?tw = "total_weight module_globals"
  have tw: "?tw \<noteq> 0" by (simp add: total_weight_module)
  have zero: "compute_top_matches ?g records 0 = Inr []"
  proof -
    have "\<And>a. block_of ?g ?tw records 0 a = []"
      by (rule block_of_empty) (simp add: length_top_of)
    then have "concat (map (block_of ?g ?tw records 0) records) = []" by simp
    with compute_top_matches_char [OF assms(1) tw, of 0] show ?thesis by simp
  qed
  have neg: "top_n < 0 \<longrightarrow>
          (\<exists>blocks.
             compute_top_matches ?g records top_n = Inr (concat blocks)
           \<and> length blocks = length records
           \<and> (\<forall>i<length records.
                 int (length (blocks ! i)) = max 0 (int (length records) - 1 - \<bar>top_n\<bar>)
               \<and> (\<exists>full.
                     mset (map fst full)
                       = mset (filter (\<lambda>j. user_id (records ! i) \<noteq> user_id (records ! j))
                                 [0..<length records])
                   \<and> list_all (\<lambda>(j, c). \<exists>details.
                         pair_candidate ?g ?tw (records ! i) j (records ! j) = Inr (j, c, details)) full
                   \<and> sorted_wrt (\<lambda>x y. snd y \<le> snd x) full
                   \<and> map (\<lambda>r. (match_user_id r, match_tenant_label r, compatibility_score r))
                         (blocks ! i)
                       = map (\<lambda>(j, c). (user_id (records ! j), tenant_label (records ! j),
                                         py_round2 c))
                           (take (length (blocks ! i)) full))
               \<and> (\<forall>r\<in>set (blocks ! i). out_user_id r = user_id (records ! i))))"
  proof
    assume n: "top_n < 0"
    let ?blk = "block_of ?g ?tw records top_n"
    have out: "compute_top_matches ?g records top_n = Inr (concat (map ?blk records))"
      by (rule compute_top_matches_char [OF assms(1) tw])
    have len: "length (map ?blk records) = length records" by simp
    have each: "\<forall>i<length records.
                 int (length (map ?blk records ! i)) = max 0 (int (length records) - 1 - \<bar>top_n\<bar>)
               \<and> (\<exists>full.
                     mset (map fst full)
                       = mset (filter (\<lambda>j. user_id (records ! i) \<noteq> user_id (records ! j))
                                 [0..<length records])
                   \<and> list_all (\<lambda>(j, c). \<exists>details.
                         pair_candidate ?g ?tw (records ! i) j (records ! j) = Inr (j, c, details)) full
                   \<and> sorted_wrt (\<lambda>x y. snd y \<le> snd x) full
                   \<and> map (\<lambda>r. (match_user_id r, match_tenant_label r, compatibility_score r))
                         (map ?blk records ! i)
                       = map (\<lambda>(j, c). (user_id (records ! j), tenant_label (records ! j),
                                         py_round2 c))
                           (take (length (map ?blk records ! i)) full))
               \<and> (\<forall>r\<in>set (map ?blk records ! i). out_user_id r = user_id (records ! i))"
    proof (intro allI impI)
      fix i assume i: "i < length records"
      let ?a = "records ! i"
      from i have mem: "?a \<in> set records" by (rule nth_mem)
      then have hc: "has_columns ?g ?a" using assms(1) by (simp add: has_columns_member)
      have nth: "map ?blk records ! i = ?blk ?a" using i by simp
      have "length (?blk ?a) = (length records - 1) - nat (- top_n)"
        using n by (simp add: length_block_of length_top_of length_others_distinct [OF assms(2) mem])
      then have c2: "int (length (?blk ?a)) = max 0 (int (length records) - 1 - \<bar>top_n\<bar>)"
        using n by simp
      note bf = block_facts [OF assms(1) hc tw, of top_n]
      from block_prefix [OF assms(1) hc tw, of top_n] obtain full where
        p: "mset (map fst full)
             = mset (filter (\<lambda>j. user_id ?a \<noteq> user_id (records ! j)) [0..<length records])"
         "list_all (\<lambda>(j, c). \<exists>details.
               pair_candidate ?g ?tw ?a j (records ! j) = Inr (j, c, details)) full"
         "sorted_wrt (\<lambda>x y. snd y \<le> snd x) full"
         "map (\<lambda>r. (match_user_id r, match_tenant_label r, compatibility_score r)) (?blk ?a)
             = map (\<lambda>(j, c). (user_id (records ! j), tenant_label (records ! j), py_round2 c))
                 (take (length (?blk ?a)) full)"
        by blast
      have c3: "\<exists>full.
                     mset (map fst full)
                       = mset (filter (\<lambda>j. user_id ?a \<noteq> user_id (records ! j))
                                 [0..<length records])
                   \<and> list_all (\<lambda>(j, c). \<exists>details.
                         pair_candidate ?g ?tw ?a j (records ! j) = Inr (j, c, details)) full
                   \<and> sorted_wrt (\<lambda>x y. snd y \<le> snd x) full
                   \<and> map (\<lambda>r. (match_user_id r, match_tenant_label r, compatibility_score r))
                         (?blk ?a)
                       = map (\<lambda>(j, c). (user_id (records ! j), tenant_label (records ! j),
                                         py_round2 c))
                           (take (length (?blk ?a)) full)"
        by (rule exI [of _ full]) (intro conjI p)
      show "int (length (map ?blk records ! i)) = max 0 (int (length records) - 1 - \<bar>top_n\<bar>)
               \<and> (\<exists>full.
                     mset (map fst full)
                       = mset (filter (\<lambda>j. user_id ?a \<noteq> user_id (records ! j))
                                 [0..<length records])
                   \<and> list_all (\<lambda>(j, c). \<exists>details.
                         pair_candidate ?g ?tw ?a j (records ! j) = Inr (j, c, details)) full
                   \<and> sorted_wrt (\<lambda>x y. snd y \<le> snd x) full
                   \<and> map (\<lambda>r. (match_user_id r, match_tenant_label r, compatibility_score r))
                         (map ?blk records ! i)
                       = map (\<lambda>(j, c). (user_id (records ! j), tenant_label (records ! j),
                                         py_round2 c))
                           (take (length (map ?blk records ! i)) full))
               \<and> (\<forall>r\<in>set (map ?blk records ! i). out_user_id r = user_id ?a)"
        unfolding nth by (intro conjI c2 c3 bf(4))
    qed
    show "\<exists>blocks.
             compute_top_matches ?g records top_n = Inr (concat blocks)
           \<and> length blocks = length records
           \<and> (\<forall>i<length records.
                 int (length (blocks ! i)) = max 0 (int (length records) - 1 - \<bar>top_n\<bar>)
               \<and> (\<exists>full.
                     mset (map fst full)
                       = mset (filter (\<lambda>j. user_id (records ! i) \<noteq> user_id (records ! j))
                                 [0..<length records])
                   \<and> list_all (\<lambda>(j, c). \<exists>details.
                         pair_candidate ?g ?tw (records ! i) j (records ! j) = Inr (j, c, details)) full
                   \<and> sorted_wrt (\<lambda>x y. snd y \<le> snd x) full
                   \<and> map (\<lambda>r. (match_user_id r, match_tenant_label r, compatibility_score r))
                         (blocks ! i)
                       = map (\<lambda>(j, c). (user_id (records ! j), tenant_label (records ! j),
                                         py_round2 c))
                           (take (length (blocks ! i)) full))
               \<and> (\<forall>r\<in>set (blocks ! i). out_user_id r = user_id (records ! i)))"
      by (rule exI [of _ "map ?blk records"]) (intro conjI out len each)
  qed
  from zero neg show ?thesis by (rule conjI)
qed

theorem top_n_zero_and_negative_witness:
  "well_formed module_globals [uniform_profile 1 3, uniform_profile 2 5, uniform_profile 3 4]
   \<and> distinct (map user_id [uniform_profile 1 3, uniform_profile 2 5, uniform_profile 3 4])
   \<and> (- 1 :: int) < 0
   \<and> compute_top_matches module_globals
        [uniform_profile 1 3, uniform_profile 2 5, uniform_profile 3 4] 0 = Inr []
   \<and> (\<exists>blocks.
         compute_top_matches module_globals
           [uniform_profile 1 3, uniform_profile 2 5, uniform_profile 3 4] (- 1) = Inr (concat blocks)
       \<and> length blocks = 3
       \<and> length (blocks ! 0) = 1 \<and> length (blocks ! 1) = 1 \<and> length (blocks ! 2) = 1)"
proof -
  let ?t = "[uniform_profile 1 3, uniform_profile 2 5, uniform_profile 3 4]"
  have wf: "well_formed module_globals ?t"
    by (simp add: well_formed_def has_columns_uniform)
  have d: "distinct (map user_id ?t)" by (simp add: user_id_uniform)
  have n: "(- 1 :: int) < 0" by simp
  note th = top_n_zero_and_negative [OF wf d, of "- 1"]
  from th have z: "compute_top_matches module_globals ?t 0 = Inr []" by (rule conjunct1)
  from th n obtain blocks where
    out: "compute_top_matches module_globals ?t (- 1) = Inr (concat blocks)"
    and len: "length blocks = length ?t"
    and each: "\<forall>i<length ?t.
                 int (length (blocks ! i)) = max 0 (int (length ?t) - 1 - \<bar>- 1\<bar>)
               \<and> (\<exists>full.
                     mset (map fst full)
                       = mset (filter (\<lambda>j. user_id (?t ! i) \<noteq> user_id (?t ! j)) [0..<length ?t])
                   \<and> list_all (\<lambda>(j, c). \<exists>details.
                         pair_candidate module_globals (total_weight module_globals)
                           (?t ! i) j (?t ! j) = Inr (j, c, details)) full
                   \<and> sorted_wrt (\<lambda>x y. snd y \<le> snd x) full
                   \<and> map (\<lambda>r. (match_user_id r, match_tenant_label r, compatibility_score r))
                         (blocks ! i)
                       = map (\<lambda>(j, c). (user_id (?t ! j), tenant_label (?t ! j), py_round2 c))
                           (take (length (blocks ! i)) full))
               \<and> (\<forall>r\<in>set (blocks ! i). out_user_id r = user_id (?t ! i))"
    by blast
  have k: "\<And>i. i < length ?t \<Longrightarrow> length (blocks ! i) = 1"
  proof -
    fix i assume "i < length ?t"
    with each have "int (length (blocks ! i)) = max 0 (int (length ?t) - 1 - \<bar>- 1\<bar>)" by blast
    then show "length (blocks ! i) = 1" by simp
  qed
  have k0: "length (blocks ! 0) = 1" by (rule k) simp
  have k1: "length (blocks ! 1) = 1" by (rule k) simp
  have k2: "length (blocks ! 2) = 1" by (rule k) simp
  have l3: "length blocks = 3" using len by simp
  have "\<exists>blocks.
         compute_top_matches module_globals ?t (- 1) = Inr (concat blocks)
       \<and> length blocks = 3
       \<and> length (blocks ! 0) = 1 \<and> length (blocks ! 1) = 1 \<and> length (blocks ! 2) = 1"
    by (rule exI [of _ blocks]) (intro conjI out l3 k0 k1 k2)
  with wf d n z show ?thesis by (intro conjI)
qed

section \<open>Claims about the aggregation and the explanations\<close>






text \<open>
  C8, as the code has it. The labels are joined by \<^verbatim>\<open>', '.join(driver_pretty)\<close>: a comma
  and a space stand between the second and the third label as well, and the word "and"
  does not occur. Two rows that hold 3 in every column give, for both emitted rows, the
  sentence below, which is not the sentence with "and".
\<close>

theorem explanation_short_counterexample:
  "\<not> isl (compute_top_matches module_globals [uniform_profile 1 3, uniform_profile 2 3] 1)
   \<and> map explanation_short
        (projr (compute_top_matches module_globals [uniform_profile 1 3, uniform_profile 2 3] 1))
      = [''High compatibility driven by Cleanliness level, Noise tolerance, Sleep schedule.'',
         ''High compatibility driven by Cleanliness level, Noise tolerance, Sleep schedule.'']
   \<and> ''High compatibility driven by Cleanliness level, Noise tolerance, Sleep schedule.''
       \<noteq> ''High compatibility driven by Cleanliness level, Noise tolerance and Sleep schedule.''"
proof -
  let ?g = module_globals
  let ?tw = "total_weight module_globals"
  let ?t = "[uniform_profile 1 3, uniform_profile 2 3]"
  let ?blk = "block_of ?g ?tw ?t 1"
  let ?s = "''High compatibility driven by Cleanliness level, Noise tolerance, Sleep schedule.''"
  have tw: "?tw \<noteq> 0" by (simp add: total_weight_module)
  have wf: "well_formed ?g ?t" by (simp add: well_formed_def has_columns_uniform)
  have out: "compute_top_matches ?g ?t 1 = Inr (?blk (uniform_profile 1 3) @ ?blk (uniform_profile 2 3))"
    using compute_top_matches_char [OF wf tw, of 1] by simp
  have l1: "length (?blk (uniform_profile 1 3)) = 1"
    by (simp add: length_block_of length_top_of length_others user_id_uniform)
  have l2: "length (?blk (uniform_profile 2 3)) = 1"
    by (simp add: length_block_of length_top_of length_others user_id_uniform)
  have e1: "\<forall>r\<in>set (?blk (uniform_profile 1 3)). explanation_short r = ?s"
    using explanation_short_uniform [of "uniform_profile 1 3" _ 1] by simp
  have e2: "\<forall>r\<in>set (?blk (uniform_profile 2 3)). explanation_short r = ?s"
    using explanation_short_uniform [of "uniform_profile 2 3" _ 1] by simp
  have m: "map explanation_short (?blk (uniform_profile 1 3) @ ?blk (uniform_profile 2 3)) = [?s, ?s]"
    using map_singleton_const [OF l1 e1] map_singleton_const [OF l2 e2] by simp
  have a: "\<not> isl (compute_top_matches ?g ?t 1)" unfolding out by simp
  have b: "map explanation_short (projr (compute_top_matches ?g ?t 1)) = [?s, ?s]"
    unfolding out using m by simp
  have c: "?s \<noteq> ''High compatibility driven by Cleanliness level, Noise tolerance and Sleep schedule.''"
    by simp
  from a b c show ?thesis by (intro conjI)
qed

text \<open>
  C8, amended. On a table that has the attribute columns, the short explanation of every
  emitted row is \<^verbatim>\<open>"High compatibility driven by {attr1}, {attr2}, {attr3}."\<close>, the three
  labels joined by a comma and a space, where attr1, attr2, attr3 are the labels of the
  top-3 drivers of the row's pair, the first three entries of its contribution list in
  non-increasing order of weight times score; a label is the attribute name with
  underscores replaced by spaces, then capitalized (first letter upper case, the others
  lower case).
\<close>

theorem explanation_short_rendering:
  assumes "well_formed module_globals records"
  shows "\<exists>out. compute_top_matches module_globals records top_n = Inr out
     \<and> (\<forall>r\<in>set out. \<exists>a b ws ds ranked f1 f2 f3.
           a \<in> set records \<and> b \<in> set records
         \<and> out_user_id r = user_id a \<and> match_user_id r = user_id b
         \<and> feature_loop module_globals a b (FEATURES module_globals) (0, []) = Inr (ws, ds)
         \<and> mset ranked = mset ds
         \<and> sorted_wrt (\<lambda>x y. (case y of (f, sc, w, m) \<Rightarrow> w * sc)
                              \<le> (case x of (f, sc, w, m) \<Rightarrow> w * sc)) ranked
         \<and> map fst (take 3 ranked) = [f1, f2, f3]
         \<and> explanation_short r
             = ''High compatibility driven by '' @ prettify_feature_name f1 @ '', ''
                 @ prettify_feature_name f2 @ '', '' @ prettify_feature_name f3 @ ''.''
         \<and> prettify_feature_name f1
             = py_capitalize (map (\<lambda>c. if c = CHR ''_'' then CHR '' '' else c) f1)
         \<and> prettify_feature_name f2
             = py_capitalize (map (\<lambda>c. if c = CHR ''_'' then CHR '' '' else c) f2)
         \<and> prettify_feature_name f3
             = py_capitalize (map (\<lambda>c. if c = CHR ''_'' then CHR '' '' else c) f3))"
proof -
  let ?g = module_globals
  let ?tw = "total_weight module_globals"
  let ?blk = "block_of ?g ?tw records top_n"
  let ?key = "\<lambda>(f, sc, w, m). w * sc :: real"
  have tw: "?tw \<noteq> 0" by (simp add: total_weight_module)
  have out: "compute_top_matches ?g records top_n = Inr (concat (map ?blk records))"
    by (rule compute_top_matches_char [OF assms tw])
  have p: "\<And>f. prettify_feature_name f
             = py_capitalize (map (\<lambda>c. if c = CHR ''_'' then CHR '' '' else c) f)"
    by (simp add: prettify_feature_name_def py_replace_char_def)
  have each: "\<forall>r\<in>set (concat (map ?blk records)). \<exists>a b ws ds ranked f1 f2 f3.
           a \<in> set records \<and> b \<in> set records
         \<and> out_user_id r = user_id a \<and> match_user_id r = user_id b
         \<and> feature_loop ?g a b (FEATURES ?g) (0, []) = Inr (ws, ds)
         \<and> mset ranked = mset ds
         \<and> sorted_wrt (\<lambda>x y. ?key y \<le> ?key x) ranked
         \<and> map fst (take 3 ranked) = [f1, f2, f3]
         \<and> explanation_short r
             = ''High compatibility driven by '' @ prettify_feature_name f1 @ '', ''
                 @ prettify_feature_name f2 @ '', '' @ prettify_feature_name f3 @ ''.''
         \<and> prettify_feature_name f1
             = py_capitalize (map (\<lambda>c. if c = CHR ''_'' then CHR '' '' else c) f1)
         \<and> prettify_feature_name f2
             = py_capitalize (map (\<lambda>c. if c = CHR ''_'' then CHR '' '' else c) f2)
         \<and> prettify_feature_name f3
             = py_capitalize (map (\<lambda>c. if c = CHR ''_'' then CHR '' '' else c) f3)"
  proof
    fix r assume "r \<in> set (concat (map ?blk records))"
    then obtain a where a: "a \<in> set records" and r: "r \<in> set (?blk a)" by auto
    from a have hc: "has_columns ?g a" using assms by (simp add: has_columns_member)
    from explanation_short_of_block [OF assms hc tw r] obtain j ds where
      j: "j < length records"
      and i1: "out_user_id r = user_id a" and i2: "match_user_id r = user_id (records ! j)"
      and fl: "feature_loop ?g a (records ! j) (FEATURES ?g) (0, [])
               = Inr (sum_list (map contribution ds), ds)"
      and nm: "map fst ds = FEATURES ?g"
      and ex: "explanation_short r = ''High compatibility driven by ''
               @ py_join '', '' (map prettify_feature_name
                   (map fst (take 3 (py_sort_desc ?key ds)))) @ ''.''"
      by blast
    let ?ranked = "py_sort_desc ?key ds"
    let ?names = "map fst (take 3 ?ranked)"
    from j have b: "records ! j \<in> set records" by (rule nth_mem)
    have ms: "mset ?ranked = mset ds" by (rule mset_py_sort_desc)
    have so: "sorted_wrt (\<lambda>x y. ?key y \<le> ?key x) ?ranked" by (rule sorted_py_sort_desc)
    have "length ds = length (FEATURES ?g)" using nm by (metis length_map)
    then have "length ds = 10" by (simp add: module_globals_def)
    then have "length ?names = 3" by (simp add: length_py_sort_desc)
    then have "\<exists>x1 x2 x3. ?names = [x1, x2, x3]" by (rule list_of_length_3)
    then obtain f1 where "\<exists>x2 x3. ?names = [f1, x2, x3]" by (rule exE)
    then obtain f2 where "\<exists>x3. ?names = [f1, f2, x3]" by (rule exE)
    then obtain f3 where n: "?names = [f1, f2, f3]" by (rule exE)
    have ex': "explanation_short r
             = ''High compatibility driven by '' @ prettify_feature_name f1 @ '', ''
                 @ prettify_feature_name f2 @ '', '' @ prettify_feature_name f3 @ ''.''"
      unfolding ex n by simp
    show "\<exists>a b ws ds ranked f1 f2 f3.
           a \<in> set records \<and> b \<in> set records
         \<and> out_user_id r = user_id a \<and> match_user_id r = user_id b
         \<and> feature_loop ?g a b (FEATURES ?g) (0, []) = Inr (ws, ds)
         \<and> mset ranked = mset ds
         \<and> sorted_wrt (\<lambda>x y. ?key y \<le> ?key x) ranked
         \<and> map fst (take 3 ranked) = [f1, f2, f3]
         \<and> explanation_short r
             = ''High compatibility driven by '' @ prettify_feature_name f1 @ '', ''
                 @ prettify_feature_name f2 @ '', '' @ prettify_feature_name f3 @ ''.''
         \<and> prettify_feature_name f1
             = py_capitalize (map (\<lambda>c. if c = CHR ''_'' then CHR '' '' else c) f1)
         \<and> prettify_feature_name f2
             = py_capitalize (map (\<lambda>c. if c = CHR ''_'' then CHR '' '' else c) f2)
         \<and> prettify_feature_name f3
             = py_capitalize (map (\<lambda>c. if c = CHR ''_'' then CHR '' '' else c) f3)"
      by (rule exI [of _ a], rule exI [of _ "records ! j"],
          rule exI [of _ "sum_list (map contribution ds)"], rule exI [of _ ds],
          rule exI [of _ ?ranked],
          rule exI [of _ f1], rule exI [of _ f2], rule exI [of _ f3])
         (intro conjI a b i1 i2 fl ms so n ex' p)
  qed
  show ?thesis
    by (rule exI [of _ "concat (map ?blk records)"]) (intro conjI out each)
qed

theorem explanation_short_rendering_witness:
  "well_formed module_globals [uniform_profile 1 3, uniform_profile 2 3]
   \<and> (\<exists>out. compute_top_matches module_globals [uniform_profile 1 3, uniform_profile 2 3] 1 = Inr out
       \<and> (\<forall>r\<in>set out. \<exists>f1 f2 f3.
             explanation_short r
               = ''High compatibility driven by '' @ prettify_feature_name f1 @ '', ''
                   @ prettify_feature_name f2 @ '', '' @ prettify_feature_name f3 @ ''.''))"
proof -
  let ?t = "[uniform_profile 1 3, uniform_profile 2 3]"
  have wf: "well_formed module_globals ?t" by (simp add: well_formed_def has_columns_uniform)
  from explanation_short_rendering [OF wf, of 1]
  have "\<exists>out. compute_top_matches module_globals ?t 1 = Inr out
       \<and> (\<forall>r\<in>set out. \<exists>f1 f2 f3.
             explanation_short r
               = ''High compatibility driven by '' @ prettify_feature_name f1 @ '', ''
                   @ prettify_feature_name f2 @ '', '' @ prettify_feature_name f3 @ ''.'')"
    by blast
  with wf show ?thesis by (rule conjI)
qed

end
